theory Spec2Isabelle
  imports Main "HOL-Library.Sublist" "HOL-Library.Char_ord" "HOL-Library.Multiset"
begin

section \<open>Characters and strings\<close>

text \<open>
  Text is a list of characters. A \<^typ>\<open>char\<close> stands for a code point below 256; the
  character classes below are the ones Python uses on that range
  (\<^verbatim>\<open>str.isspace\<close>, the \<^verbatim>\<open>\s\<close>, \<^verbatim>\<open>\w\<close> and \<^verbatim>\<open>\d\<close> classes of \<^verbatim>\<open>re\<close> on \<^verbatim>\<open>str\<close>
  patterns, and the line boundaries of \<^verbatim>\<open>str.splitlines\<close>).
\<close>

definition isspace :: "char \<Rightarrow> bool" where
  "isspace c = (c \<in> set [CHR 0x09, CHR 0x0A, CHR 0x0B, CHR 0x0C, CHR 0x0D,
                          CHR 0x1C, CHR 0x1D, CHR 0x1E, CHR 0x1F, CHR 0x20,
                          CHR 0x85, CHR 0xA0])"

definition is_linebreak :: "char \<Rightarrow> bool" where
  "is_linebreak c = (c \<in> set [CHR 0x0A, CHR 0x0B, CHR 0x0C, CHR 0x0D,
                               CHR 0x1C, CHR 0x1D, CHR 0x1E, CHR 0x85])"

definition isdigit :: "char \<Rightarrow> bool" where
  "isdigit c = (CHR ''0'' \<le> c \<and> c \<le> CHR ''9'')"

text \<open>The class \<^verbatim>\<open>[a-zA-Z_]\<close>.\<close>

definition is_name_start :: "char \<Rightarrow> bool" where
  "is_name_start c =
     ((CHR ''a'' \<le> c \<and> c \<le> CHR ''z'') \<or> (CHR ''A'' \<le> c \<and> c \<le> CHR ''Z'') \<or> c = CHR ''_'')"

text \<open>
  The class \<^verbatim>\<open>\w\<close>: the underscore and every alphanumeric character, which below 256
  adds to ASCII the letters and numeric characters of Latin-1.
\<close>

definition is_word :: "char \<Rightarrow> bool" where
  "is_word c =
     (is_name_start c \<or> isdigit c \<or>
      c \<in> set [CHR 0xAA, CHR 0xB2, CHR 0xB3, CHR 0xB5, CHR 0xB9, CHR 0xBA,
                CHR 0xBC, CHR 0xBD, CHR 0xBE] \<or>
      (CHR 0xC0 \<le> c \<and> c \<noteq> CHR 0xD7 \<and> c \<noteq> CHR 0xF7))"

text \<open>\<^verbatim>\<open>sep.join(parts)\<close>.\<close>

fun join :: "string \<Rightarrow> string list \<Rightarrow> string" where
  "join sep [] = []"
| "join sep [l] = l"
| "join sep (l # m # ls) = l @ sep @ join sep (m # ls)"

text \<open>
  \<^verbatim>\<open>s.splitlines()\<close>: the text is cut at every line boundary, a carriage return followed
  by a line feed is one boundary, the boundaries are dropped, and a boundary at the very
  end opens no further line.
\<close>

fun splitlines :: "string \<Rightarrow> string list" where
  "splitlines [] = []"
| "splitlines [c] = (if is_linebreak c then [[]] else [[c]])"
| "splitlines (c # d # cs) =
     (if c = CHR 0x0D \<and> d = CHR 0x0A then [] # splitlines cs
      else if is_linebreak c then [] # splitlines (d # cs)
      else (case splitlines (d # cs) of
              [] \<Rightarrow> [[c]]
            | l # ls \<Rightarrow> (c # l) # ls))"

text \<open>\<^verbatim>\<open>s.strip()\<close>, \<^verbatim>\<open>s.strip(chars)\<close> and \<^verbatim>\<open>s.lstrip(chars)\<close>.\<close>

definition strip_by :: "(char \<Rightarrow> bool) \<Rightarrow> string \<Rightarrow> string" where
  "strip_by P s = rev (dropWhile P (rev (dropWhile P s)))"

definition strip :: "string \<Rightarrow> string" where
  "strip s = strip_by isspace s"

definition strip_chars :: "string \<Rightarrow> string \<Rightarrow> string" where
  "strip_chars chars s = strip_by (\<lambda>c. c \<in> set chars) s"

definition lstrip_chars :: "string \<Rightarrow> string \<Rightarrow> string" where
  "lstrip_chars chars s = dropWhile (\<lambda>c. c \<in> set chars) s"

definition startswith :: "string \<Rightarrow> string \<Rightarrow> bool" where
  "startswith s p = (take (length p) s = p)"

definition endswith :: "string \<Rightarrow> string \<Rightarrow> bool" where
  "endswith s p = (length p \<le> length s \<and> drop (length s - length p) s = p)"

section \<open>Content sanitation\<close>

definition normalize_content_for_writing_from_fence :: "string \<Rightarrow> string" where
  "normalize_content_for_writing_from_fence content =
     (if startswith content [CHR 0x0A] then drop 1 content else content)"

text \<open>
  \<^verbatim>\<open>re.match(r'^\s*/[a-zA-Z_]\w*', ln)\<close> finds a match exactly when, after the leading
  white space, the line goes on with a slash and a character of \<^verbatim>\<open>[a-zA-Z_]\<close>: the
  slash is no white space, so the greedy \<^verbatim>\<open>\s*\<close> never has to give a character back, and
  the trailing \<^verbatim>\<open>\w*\<close> matches the empty string.
\<close>

definition is_command_line :: "string \<Rightarrow> bool" where
  "is_command_line ln =
     (case dropWhile isspace ln of
        c # d # _ \<Rightarrow> c = CHR ''/'' \<and> is_name_start d
      | _ \<Rightarrow> False)"

definition strip_command_lines :: "string \<Rightarrow> string" where
  "strip_command_lines content =
     join [CHR 0x0A] (filter (\<lambda>ln. \<not> is_command_line ln) (splitlines content))"

definition content_has_command_lines :: "string \<Rightarrow> bool" where
  "content_has_command_lines content =
     (if content = [] then False
      else list_ex is_command_line (splitlines content))"

section \<open>Command parsing\<close>

text \<open>\<^verbatim>\<open>text[a:b]\<close> for \<^verbatim>\<open>0 <= a\<close>, and \<^verbatim>\<open>text.find(sub, i)\<close> with \<open>None\<close> for \<^verbatim>\<open>-1\<close>.\<close>

definition slice :: "string \<Rightarrow> nat \<Rightarrow> nat \<Rightarrow> string" where
  "slice text a b = take (b - a) (drop a text)"

fun find_in :: "string \<Rightarrow> string \<Rightarrow> nat option" where
  "find_in sub [] = (if sub = [] then Some 0 else None)"
| "find_in sub (c # cs) =
     (if startswith (c # cs) sub then Some 0 else map_option Suc (find_in sub cs))"

definition find_from :: "string \<Rightarrow> string \<Rightarrow> nat \<Rightarrow> nat option" where
  "find_from text sub i =
     (if length text < i then None else map_option (\<lambda>k. i + k) (find_in sub (drop i text)))"

text \<open>
  \<^verbatim>\<open>re.match(r"/([a-zA-Z_]\w*)", text[m:])\<close>: the group is the longest run of word
  characters after the slash, and it has to start with a character of \<^verbatim>\<open>[a-zA-Z_]\<close>.
\<close>

definition match_command :: "string \<Rightarrow> string option" where
  "match_command s =
     (case s of
        c # d # rest \<Rightarrow>
          if c = CHR ''/'' \<and> is_name_start d then Some (d # takeWhile is_word rest) else None
      | _ \<Rightarrow> None)"

text \<open>The loop \<^verbatim>\<open>while pos < L and text[pos].isspace(): pos += 1\<close>.\<close>

function skip_space :: "string \<Rightarrow> nat \<Rightarrow> nat" where
  "skip_space text pos =
     (if pos < length text \<and> isspace (text ! pos) then skip_space text (Suc pos) else pos)"
  by pat_completeness auto
termination
  by (relation "measure (\<lambda>(text, pos). length text - pos)") auto

declare skip_space.simps [simp del]

text \<open>
  A fenced argument, \<open>pos\<close> at its opening fence: the value and the position after it.
\<close>

definition scan_fence :: "string \<Rightarrow> nat \<Rightarrow> string \<times> nat" where
  "scan_fence text pos =
     (let L = length text; pos_start = pos + 3 in
      case find_from text [CHR 0x0A] pos_start of
        Some newline_idx \<Rightarrow>
          (case find_from text [CHR 0x60, CHR 0x60, CHR 0x60] (newline_idx + 1) of
             None \<Rightarrow> (drop (newline_idx + 1) text, L)
           | Some end_idx \<Rightarrow> (slice text (newline_idx + 1) end_idx, end_idx + 3))
      | None \<Rightarrow>
          (case find_from text [CHR 0x60, CHR 0x60, CHR 0x60] pos_start of
             None \<Rightarrow> (drop pos_start text, L)
           | Some end_idx \<Rightarrow> (slice text pos_start end_idx, end_idx + 3)))"

text \<open>
  A quoted argument, \<open>j\<close> after the opening quote: the characters read and the position
  of the closing quote, or the length of the text when the quote is never closed.
\<close>

function scan_quoted :: "string \<Rightarrow> char \<Rightarrow> nat \<Rightarrow> string \<Rightarrow> bool \<Rightarrow> string \<times> nat" where
  "scan_quoted text quote j val_chars escaped =
     (if j < length text then
        (let c = text ! j in
         if escaped then scan_quoted text quote (Suc j) (val_chars @ [c]) False
         else if c = CHR 0x5C then scan_quoted text quote (Suc j) val_chars True
         else if c = quote then (val_chars, j)
         else scan_quoted text quote (Suc j) (val_chars @ [c]) escaped)
      else (val_chars, j))"
  by pat_completeness auto
termination
  by (relation "measure (\<lambda>(text, quote, j, val_chars, escaped). length text - j)") auto

declare scan_quoted.simps [simp del]

text \<open>A bare token: the longest run of characters that are neither white space nor a slash.\<close>

function scan_bare :: "string \<Rightarrow> nat \<Rightarrow> string \<Rightarrow> string \<times> nat" where
  "scan_bare text j token_chars =
     (if j < length text \<and> \<not> isspace (text ! j) \<and> text ! j \<noteq> CHR ''/''
      then scan_bare text (Suc j) (token_chars @ [text ! j])
      else (token_chars, j))"
  by pat_completeness auto
termination
  by (relation "measure (\<lambda>(text, j, token_chars). length text - j)") auto

declare scan_bare.simps [simp del]

text \<open>The inner loop of \<^verbatim>\<open>find_commands_in_text\<close>: the arguments of one command.\<close>

function parse_args :: "string \<Rightarrow> nat \<Rightarrow> string list \<Rightarrow> string list \<times> nat" where
  "parse_args text pos0 args =
     (let pos = skip_space text pos0 in
      if length text \<le> pos \<or> text ! pos = CHR ''/'' then (args, pos)
      else if text ! pos = CHR 0x60 \<and> pos + 2 < length text
              \<and> slice text pos (pos + 3) = [CHR 0x60, CHR 0x60, CHR 0x60] then
        (case scan_fence text pos of
           (val, pos') \<Rightarrow> parse_args text pos' (args @ [val]))
      else if text ! pos = CHR 0x22 \<or> text ! pos = CHR 0x27 then
        (case scan_quoted text (text ! pos) (pos + 1) [] False of
           (val, j) \<Rightarrow>
             parse_args text (if j < length text then j + 1 else j) (args @ [val]))
      else
        (case scan_bare text pos [] of
           (token_chars, j) \<Rightarrow>
             parse_args text j (if token_chars \<noteq> [] then args @ [token_chars] else args)))"
  by pat_completeness auto

termination
proof (relation "measure (\<lambda>(text, pos, args). length text - pos)", goal_cases)
  case 1
  show ?case by simp
next
  case (2 t pos0 args x v y)
  have skip: "pos0 \<le> skip_space t pos0"
    by (induction t pos0 rule: skip_space.induct) (subst skip_space.simps, auto)
  have find: "i \<le> k" if "find_from t sub i = Some k" for sub i k
    using that by (auto simp: find_from_def split: if_splits)
  from 2 have xL: "x < length t" by simp
  have "x < y"
    using 2(4) xL
    by (auto simp: scan_fence_def Let_def split: option.splits dest!: find)
  with skip 2(1) xL show ?case by simp
next
  case (3 t pos0 args x v y)
  have skip: "pos0 \<le> skip_space t pos0"
    by (induction t pos0 rule: skip_space.induct) (subst skip_space.simps, auto)
  have quoted: "j \<le> snd (scan_quoted t q j vs e)" for q j vs e
  proof (induction t q j vs e rule: scan_quoted.induct)
    case (1 t q j vs e)
    then show ?case
      by (subst scan_quoted.simps) (cases e; auto simp: Let_def dest: Suc_leD)
  qed
  from 3 have xL: "x < length t" by simp
  from quoted [of "x + 1" "t ! x" "[]" False] 3(5) have "x + 1 \<le> y"
    by (metis snd_conv)
  with skip 3(1) xL show ?case by auto
next
  case (4 t pos0 args x v y)
  have skip: "pos0 \<le> skip_space t pos0"
    by (induction t pos0 rule: skip_space.induct) (subst skip_space.simps, auto)
  have bare: "j \<le> snd (scan_bare t j vs)" for j vs
    by (induction t j vs rule: scan_bare.induct) (subst scan_bare.simps, auto)
  from 4 have xL: "x < length t" and nsl: "t ! x \<noteq> CHR ''/''" by simp_all
  have nsp: "\<not> isspace (t ! x)"
  proof -
    have "p < length t \<Longrightarrow> \<not> isspace (t ! p)" if "p = skip_space t p0" for p p0
      using that
      by (induction t p0 rule: skip_space.induct)
         (subst (asm) (2) skip_space.simps, auto split: if_splits)
    with 4(1) xL show ?thesis by blast
  qed
  have "x < y"
    using 4(5) xL nsl nsp bare [of "Suc x" "[t ! x]"]
    by (subst (asm) scan_bare.simps) (auto dest: Suc_le_lessD simp: snd_def split: prod.splits)
  with skip 4(1) xL show ?case by simp
qed

declare parse_args.simps [simp del]

text \<open>
  The outer loop of \<^verbatim>\<open>find_commands_in_text\<close>. Beside the name and the arguments, each
  entry records the index \<open>m\<close> of the slash the command starts at; the source keeps the
  name and the arguments only, and \<open>find_commands_in_text\<close> drops the index again.
\<close>

function find_commands_loop ::
  "string \<Rightarrow> nat \<Rightarrow> (nat \<times> string \<times> string list) list \<Rightarrow> (nat \<times> string \<times> string list) list"
where
  "find_commands_loop text i commands =
     (case find_from text [CHR ''/''] i of
        None \<Rightarrow> commands
      | Some m \<Rightarrow>
          if 0 < m \<and> text ! (m - 1) \<noteq> CHR 0x0A \<and> text ! (m - 1) \<noteq> CHR 0x0D
          then find_commands_loop text (m + 1) commands
          else (case match_command (drop m text) of
                  None \<Rightarrow> find_commands_loop text (m + 1) commands
                | Some cmd \<Rightarrow>
                    (case parse_args text (m + 1 + length cmd) [] of
                       (args, pos) \<Rightarrow>
                         find_commands_loop text pos (commands @ [(m, cmd, args)]))))"
  by pat_completeness auto

termination
proof -
  have skip: "pos0 \<le> skip_space t pos0" for t pos0
    by (induction t pos0 rule: skip_space.induct) (subst skip_space.simps, auto)
  have find: "i \<le> k \<and> k < length t" if "find_from t [c] i = Some k" for t c i k
  proof -
    have "k + 1 \<le> length s" if "find_in [c] s = Some k" for s k
      using that by (induction s arbitrary: k) (auto simp: startswith_def split: if_splits)
    from this [of "drop i t"] that show ?thesis
      by (auto simp: find_from_def split: if_splits)
  qed
  have findge: "i \<le> k" if "find_from t sub i = Some k" for t sub i k
    using that by (auto simp: find_from_def split: if_splits)
  have fence: "x < y" if "scan_fence t x = (v, y)" "x < length t" for t x v y
    using that by (auto simp: scan_fence_def Let_def split: option.splits dest!: findge)
  have quoted: "j \<le> snd (scan_quoted t q j vs e)" for t q j vs e
  proof (induction t q j vs e rule: scan_quoted.induct)
    case (1 t q j vs e)
    then show ?case
      by (subst scan_quoted.simps) (cases e; auto simp: Let_def dest: Suc_leD)
  qed
  have bare: "j \<le> snd (scan_bare t j vs)" for t j vs
    by (induction t j vs rule: scan_bare.induct) (subst scan_bare.simps, auto)
  have args: "p \<le> snd (parse_args t p a)" for t p a
  proof (induction t p a rule: parse_args.induct)
    case (1 t pos0 args)
    let ?x = "skip_space t pos0"
    show ?case
    proof (cases "length t \<le> ?x \<or> t ! ?x = CHR ''/''")
      case True
      then show ?thesis using skip [of pos0 t] by (subst parse_args.simps) (simp add: Let_def)
    next
      case stop: False
      then have xL: "?x < length t" by simp
      show ?thesis
      proof (cases "t ! ?x = CHR 0x60 \<and> ?x + 2 < length t \<and> slice t ?x (?x + 3) = [CHR 0x60, CHR 0x60, CHR 0x60]")
        case True
        obtain v y where f: "scan_fence t ?x = (v, y)" by (cases "scan_fence t ?x")
        from 1(1) [OF refl stop True f [symmetric]] have "y \<le> snd (parse_args t y (args @ [v]))" .
        moreover from fence [OF f xL] have "?x < y" .
        ultimately show ?thesis using stop True f skip [of pos0 t]
          by (subst parse_args.simps) (simp add: Let_def)
      next
        case nofence: False
        show ?thesis
        proof (cases "t ! ?x = CHR 0x22 \<or> t ! ?x = CHR 0x27")
          case True
          obtain v j where q: "scan_quoted t (t ! ?x) (?x + 1) [] False = (v, j)"
            by (cases "scan_quoted t (t ! ?x) (?x + 1) [] False")
          let ?p = "if j < length t then j + 1 else j"
          from 1(2) [OF refl stop nofence True q [symmetric]]
          have "?p \<le> snd (parse_args t ?p (args @ [v]))" .
          moreover from quoted [of "?x + 1" t "t ! ?x" "[]" False] q have "?x + 1 \<le> j" by simp
          ultimately show ?thesis using stop nofence True q skip [of pos0 t]
            by (subst parse_args.simps) (auto simp: Let_def)
        next
          case noquote: False
          obtain v j where b: "scan_bare t ?x [] = (v, j)" by (cases "scan_bare t ?x []")
          from 1(3) [OF refl stop nofence noquote b [symmetric]]
          have "j \<le> snd (parse_args t j (if v \<noteq> [] then args @ [v] else args))" .
          moreover from bare [of ?x t "[]"] b have "?x \<le> j" by simp
          ultimately show ?thesis using stop nofence noquote b skip [of pos0 t]
            by (subst parse_args.simps) (auto simp: Let_def)
        qed
      qed
    qed
  qed
  show ?thesis
  proof (relation "measure (\<lambda>(text, i, commands). Suc (length text) - i)", goal_cases)
    case 1
    show ?case by simp
  next
    case (2 t i commands m)
    with find [of t "CHR ''/''" i m] show ?case by auto
  next
    case (3 t i commands m)
    with find [of t "CHR ''/''" i m] show ?case by auto
  next
    case (4 t i commands m cmd a y)
    from args [of "m + 1 + length cmd" t "[]"] 4(4) have "m + 1 + length cmd \<le> y"
      by (metis snd_conv)
    with 4(1) find [of t "CHR ''/''" i m] show ?case by auto
  qed
qed

declare find_commands_loop.simps [simp del]

definition find_commands_in_text :: "string \<Rightarrow> (string \<times> string list) list" where
  "find_commands_in_text text =
     (if text = [] then [] else map snd (find_commands_loop text 0 []))"


text \<open>The lines \<^verbatim>\<open>_strip_command_lines\<close> keeps, before it joins them.\<close>

definition kept_lines :: "string \<Rightarrow> string list" where
  "kept_lines s = filter (\<lambda>ln. \<not> is_command_line ln) (splitlines s)"

section \<open>Line edits\<close>

text \<open>The exceptions the model tells apart.\<close>

datatype error = PermissionError | ValueError | OSError

text \<open>
  \<^verbatim>\<open>int(s)\<close> on a string: white space around the number is dropped, a sign may lead, and
  single underscores may stand between digits; a number of more than
  \<^verbatim>\<open>sys.int_max_str_digits\<close> digits is refused. \<open>None\<close> stands for the \<^verbatim>\<open>ValueError\<close>.
\<close>

definition int_max_str_digits :: nat where
  "int_max_str_digits = 4300"

definition digits_to_nat :: "string \<Rightarrow> nat" where
  "digits_to_nat ds = foldl (\<lambda>n c. 10 * n + (of_char c - 48)) 0 ds"

fun int_body_ok :: "string \<Rightarrow> bool" where
  "int_body_ok [] = False"
| "int_body_ok [c] = isdigit c"
| "int_body_ok (c # d # cs) =
     (isdigit c \<and> (if d = CHR ''_'' then int_body_ok cs else int_body_ok (d # cs)))"

definition py_int :: "string \<Rightarrow> int option" where
  "py_int s =
     (let t = strip s;
          neg = (t \<noteq> [] \<and> hd t = CHR ''-'');
          body = (if t \<noteq> [] \<and> (hd t = CHR ''-'' \<or> hd t = CHR ''+'') then tl t else t)
      in if int_body_ok body \<and> length (filter isdigit body) \<le> int_max_str_digits
         then Some ((if neg then - 1 else 1) * int (digits_to_nat (filter isdigit body)))
         else None)"

text \<open>The loop \<^verbatim>\<open>while len(lines) < idx: lines.append("")\<close>.\<close>

function pad_lines :: "string list \<Rightarrow> nat \<Rightarrow> string list" where
  "pad_lines lines idx = (if length lines < idx then pad_lines (lines @ [[]]) idx else lines)"
  by pat_completeness auto
termination
  by (relation "measure (\<lambda>(lines, idx). idx - length lines)") auto

declare pad_lines.simps [simp del]

text \<open>
  The read-modify-write of \<^verbatim>\<open>/set line N path text\<close>: the new lines, and the new text of
  the file.
\<close>

definition set_line :: "string list \<Rightarrow> int \<Rightarrow> string \<Rightarrow> string list" where
  "set_line lines line_num new_line =
     (let idx = nat (max 0 (line_num - 1));
          lines = pad_lines lines idx
      in if idx < length lines then lines[idx := new_line] else lines @ [new_line])"

definition set_line_text :: "string \<Rightarrow> int \<Rightarrow> string \<Rightarrow> string" where
  "set_line_text text line_num new_line =
     join [CHR 0x0A] (set_line (splitlines text) line_num new_line)
       @ (if endswith new_line [CHR 0x0A] then [CHR 0x0A] else [])"

text \<open>
  A line of a patch, \<^verbatim>\<open>re.match(r"^\s*(\d+)\s*([+-])\s*(.*)$", raw)\<close>: the digits of the line
  number, the operator and the text. No class gives a character back to the next one (a
  digit is no white space and no operator), and \<open>raw\<close> holds no line feed, so the last
  group is the rest of the line.
\<close>

type_synonym patch_op = "nat \<times> char \<times> string"

definition parse_patch_line :: "string \<Rightarrow> (string \<times> char \<times> string) option" where
  "parse_patch_line raw =
     (let s1 = dropWhile isspace raw;
          ds = takeWhile isdigit s1;
          s2 = dropWhile isspace (dropWhile isdigit s1)
      in if ds = [] then None
         else (case s2 of
                 [] \<Rightarrow> None
               | op # s3 \<Rightarrow>
                   if op = CHR ''+'' \<or> op = CHR ''-''
                   then Some (ds, op, dropWhile isspace s3)
                   else None))"

text \<open>
  The loop over the lines of the patch: a blank line and a line that does not match are
  passed over, and \<^verbatim>\<open>int(m.group(1))\<close> raises for a line number of too many digits, which
  ends the loop.
\<close>

fun parse_patch_lines :: "string list \<Rightarrow> patch_op list \<Rightarrow> error + patch_op list" where
  "parse_patch_lines [] ops = Inr ops"
| "parse_patch_lines (raw # raws) ops =
     (if strip raw = [] then parse_patch_lines raws ops
      else (case parse_patch_line raw of
              None \<Rightarrow> parse_patch_lines raws ops
            | Some (ds, op, text) \<Rightarrow>
                (case py_int ds of
                   None \<Rightarrow> Inl ValueError
                 | Some lineno \<Rightarrow> parse_patch_lines raws (ops @ [(nat lineno, op, text)]))))"

definition parse_patch_ops :: "string \<Rightarrow> error + patch_op list" where
  "parse_patch_ops patches = parse_patch_lines (splitlines patches) []"

text \<open>
  One removal and one insertion of \<^verbatim>\<open>handle_patch\<close>, on the list of lines. A removal logs one
  message, with \<^verbatim>\<open>logging.info\<close> when it removes the line and when it passes over a line
  whose text differs, with \<^verbatim>\<open>logging.warning\<close> when the line number is out of range.
\<close>

datatype level = INFO | WARNING

definition remove_step :: "string list \<Rightarrow> patch_op \<Rightarrow> string list \<times> level" where
  "remove_step lines o1 =
     (case o1 of (lineno, op, text) \<Rightarrow>
        if 1 \<le> lineno \<and> lineno \<le> length lines then
          (if text \<noteq> [] \<and> strip (lines ! (lineno - 1)) \<noteq> strip text then (lines, INFO)
           else (take (lineno - 1) lines @ drop lineno lines, INFO))
        else (lines, WARNING))"

definition apply_remove :: "string list \<Rightarrow> patch_op \<Rightarrow> string list" where
  "apply_remove lines o1 = fst (remove_step lines o1)"

definition apply_insert :: "string list \<Rightarrow> patch_op \<Rightarrow> string list" where
  "apply_insert lines o1 =
     (case o1 of (lineno, op, text) \<Rightarrow>
        let idx = lineno - 1;
            lines = pad_lines lines idx
        in take idx lines @ [text] @ drop idx lines)"

text \<open>
  \<^verbatim>\<open>sorted(removes, key=lambda x: x[0], reverse=True)\<close> and
  \<^verbatim>\<open>sorted(inserts, key=lambda x: x[0])\<close>; both sorts are stable.
\<close>

definition removes_order :: "patch_op list \<Rightarrow> patch_op list" where
  "removes_order ops = rev (sort_key fst (rev (filter (\<lambda>o1. fst (snd o1) = CHR ''-'') ops)))"

definition inserts_order :: "patch_op list \<Rightarrow> patch_op list" where
  "inserts_order ops = sort_key fst (filter (\<lambda>o1. fst (snd o1) = CHR ''+'') ops)"

definition patch_lines :: "string list \<Rightarrow> patch_op list \<Rightarrow> string list" where
  "patch_lines lines ops =
     foldl apply_insert (foldl apply_remove lines (removes_order ops)) (inserts_order ops)"

text \<open>
  The body of the \<^verbatim>\<open>try\<close> of \<^verbatim>\<open>handle_patch\<close> between the read and the write: the new
  text from the text read and the patch, or the error of the parse.
\<close>

definition patched_text :: "string \<Rightarrow> patch_op list \<Rightarrow> string" where
  "patched_text text ops =
     (let lines = patch_lines (splitlines text) ops;
          new_text = join [CHR 0x0A] lines
            @ (if lines \<noteq> [] \<and> \<not> endswith (last lines) [CHR 0x0A] then [CHR 0x0A] else [])
      in if content_has_command_lines new_text then strip_command_lines new_text else new_text)"

definition patch_text :: "string \<Rightarrow> string \<Rightarrow> error + string" where
  "patch_text text patches =
     (case parse_patch_ops patches of
        Inl e \<Rightarrow> Inl e
      | Inr ops \<Rightarrow> Inr (patched_text text ops))"

section \<open>Reprocessing state\<close>

text \<open>
  A task is a handler (by its command name) with its arguments and the base directory.
  The registry \<^verbatim>\<open>COMMAND_HANDLERS\<close> holds the names below and the names the plugins add.
\<close>

type_synonym path = "string list"









section \<open>Paths and the file system\<close>

text \<open>
  A path is the list of its parts, as \<^verbatim>\<open>pathlib\<close> keeps them in its POSIX flavour: the
  root is a part of its own and stands first in an absolute path, and \<^verbatim>\<open>.\<close> and empty
  components are dropped when a string is parsed, \<^verbatim>\<open>..\<close> is kept.
\<close>

fun split_on :: "char \<Rightarrow> string \<Rightarrow> string list" where
  "split_on c [] = [[]]"
| "split_on c (x # xs) =
     (if x = c then [] # split_on c xs
      else (case split_on c xs of
              [] \<Rightarrow> [[x]]
            | l # ls \<Rightarrow> (x # l) # ls))"

definition parse_path :: "string \<Rightarrow> path" where
  "parse_path s =
     (let n = length (takeWhile (\<lambda>c. c = CHR ''/'') s);
          comps = filter (\<lambda>c. c \<noteq> [] \<and> c \<noteq> ''.'') (split_on (CHR ''/'') s)
      in if n = 0 then comps else (if n = 2 then ''//'' else ''/'') # comps)"

definition is_absolute :: "path \<Rightarrow> bool" where
  "is_absolute p = (case p of [] \<Rightarrow> False | r # _ \<Rightarrow> r \<noteq> [] \<and> hd r = CHR ''/'')"

definition joinpath :: "path \<Rightarrow> string \<Rightarrow> path" where
  "joinpath base s = (let q = parse_path s in if is_absolute q then q else base @ q)"

definition has_name :: "path \<Rightarrow> bool" where
  "has_name p = (p \<noteq> [] \<and> \<not> (length p = 1 \<and> is_absolute p))"

definition path_name :: "path \<Rightarrow> string" where
  "path_name p = (if has_name p then last p else [])"

definition parent :: "path \<Rightarrow> path" where
  "parent p = (if has_name p then butlast p else p)"

text \<open>
  \<^verbatim>\<open>Path.suffix\<close>: the name from its last dot on, unless that dot is the first or the last
  character of the name.
\<close>

definition name_suffix :: "string \<Rightarrow> string" where
  "name_suffix n =
     (let after = takeWhile (\<lambda>c. c \<noteq> CHR ''.'') (rev n) in
      if CHR ''.'' \<in> set n \<and> after \<noteq> [] \<and> Suc (length after) < length n
      then drop (length n - Suc (length after)) n
      else [])"

definition path_suffix :: "path \<Rightarrow> string" where
  "path_suffix p = name_suffix (path_name p)"

text \<open>\<^verbatim>\<open>str(path)\<close>, the string a system call is given.\<close>

definition path_string :: "path \<Rightarrow> string" where
  "path_string p =
     (case p of
        [] \<Rightarrow> ''.''
      | r # rest \<Rightarrow> if is_absolute p then r @ join ''/'' rest else join ''/'' p)"

definition with_name :: "path \<Rightarrow> string \<Rightarrow> error + path" where
  "with_name p n = (if has_name p then Inr (butlast p @ [n]) else Inl ValueError)"

definition with_suffix :: "path \<Rightarrow> string \<Rightarrow> error + path" where
  "with_suffix p suf =
     (if has_name p
      then Inr (butlast p @
                  [take (length (path_name p) - length (path_suffix p)) (path_name p) @ suf])
      else Inl ValueError)"

text \<open>
  The file system, as Linux gives it: the bytes of every file and the set of directories,
  both under resolved paths, and the working directory. It has no symbolic links and no
  permissions, and what it stores is read as text one character to the byte. A name holds
  at most \<^verbatim>\<open>NAME_MAX\<close> bytes and the string of a path fewer than \<^verbatim>\<open>PATH_MAX\<close>; a character
  from 128 on takes two bytes in UTF-8.
\<close>

record filesystem =
  files :: "path \<rightharpoonup> string"
  dirs :: "path set"
  cwd :: path

definition NAME_MAX :: nat where
  "NAME_MAX = 255"

definition PATH_MAX :: nat where
  "PATH_MAX = 4096"

definition utf8_length :: "string \<Rightarrow> nat" where
  "utf8_length s = length s + length (filter (\<lambda>c. (128 :: nat) \<le> of_char c) s)"

text \<open>
  \<^verbatim>\<open>Path.resolve()\<close> makes a path absolute and folds its \<^verbatim>\<open>..\<close> parts, whether or not the
  parts before them exist.
\<close>

definition collapse_step :: "path \<Rightarrow> string \<Rightarrow> path" where
  "collapse_step acc part =
     (if part = ''..'' then (if length acc \<le> 1 then acc else butlast acc) else acc @ [part])"

definition resolve :: "filesystem \<Rightarrow> path \<Rightarrow> path" where
  "resolve fs p =
     (case (if is_absolute p then p else cwd fs @ p) of
        [] \<Rightarrow> []
      | r # rest \<Rightarrow> foldl collapse_step [r] rest)"

text \<open>
  How a call on a path fails: with the error number of the system call, or, for a path that
  holds a null character, with the \<^verbatim>\<open>ValueError\<close> that Python raises before it makes the
  call.
\<close>

datatype failure = ENOENT | ENOTDIR | ENAMETOOLONG | EEXIST | EISDIR | EmbeddedNull

definition raised :: "failure \<Rightarrow> error" where
  "raised e = (if e = EmbeddedNull then ValueError else OSError)"

text \<open>
  The walk of the system call along the parts of a path, from the place \<open>cur\<close>: each part
  is looked up in a directory that has to be there. \<open>lookup\<close> is the walk of a whole path;
  the place it arrives at is the resolved form of the path.
\<close>

fun walk :: "filesystem \<Rightarrow> path \<Rightarrow> string list \<Rightarrow> failure + path" where
  "walk fs cur [] = Inr cur"
| "walk fs cur (c # cs) =
     (if cur \<notin> dirs fs then Inl (if files fs cur = None then ENOENT else ENOTDIR)
      else if c \<noteq> ''..'' \<and> NAME_MAX < utf8_length c then Inl ENAMETOOLONG
      else walk fs (collapse_step cur c) cs)"

definition lookup :: "filesystem \<Rightarrow> path \<Rightarrow> failure + path" where
  "lookup fs p =
     (if list_ex (\<lambda>c. CHR 0x00 \<in> set c) p then Inl EmbeddedNull
      else if PATH_MAX \<le> utf8_length (path_string p) then Inl ENAMETOOLONG
      else (case (if is_absolute p then p else cwd fs @ p) of
              [] \<Rightarrow> Inl ENOENT
            | r # rest \<Rightarrow> walk fs [r] rest))"

text \<open>\<^verbatim>\<open>os.stat\<close>: whether the path names a directory (\<open>True\<close>) or a file.\<close>

definition stat :: "filesystem \<Rightarrow> path \<Rightarrow> failure + bool" where
  "stat fs p =
     (case lookup fs p of
        Inl e \<Rightarrow> Inl e
      | Inr k \<Rightarrow>
          if k \<in> dirs fs then Inr True
          else if files fs k \<noteq> None then Inr False
          else Inl ENOENT)"

text \<open>
  \<^verbatim>\<open>Path.exists()\<close>, \<^verbatim>\<open>Path.is_dir()\<close> and \<^verbatim>\<open>Path.is_file()\<close> answer \<open>False\<close> when the call
  fails because a part of the path is missing or is no directory, and for a path with a null
  character; they raise every other error of the call.
\<close>

definition ignored :: "failure \<Rightarrow> bool" where
  "ignored e = (e = ENOENT \<or> e = ENOTDIR \<or> e = EmbeddedNull)"

definition path_exists :: "filesystem \<Rightarrow> path \<Rightarrow> error + bool" where
  "path_exists fs p =
     (case stat fs p of
        Inr d \<Rightarrow> Inr True
      | Inl e \<Rightarrow> if ignored e then Inr False else Inl OSError)"

definition is_dir :: "filesystem \<Rightarrow> path \<Rightarrow> error + bool" where
  "is_dir fs p =
     (case stat fs p of
        Inr d \<Rightarrow> Inr d
      | Inl e \<Rightarrow> if ignored e then Inr False else Inl OSError)"

definition is_file :: "filesystem \<Rightarrow> path \<Rightarrow> error + bool" where
  "is_file fs p =
     (case stat fs p of
        Inr d \<Rightarrow> Inr (\<not> d)
      | Inl e \<Rightarrow> if ignored e then Inr False else Inl OSError)"

text \<open>
  Reading and writing. \<^verbatim>\<open>Path.read_text\<close> opens the file with universal newlines, so a
  carriage return, alone or before a line feed, is read as a line feed; \<^verbatim>\<open>Path.write_text\<close>
  writes a line feed as it is.
\<close>

fun universal_newlines :: "string \<Rightarrow> string" where
  "universal_newlines [] = []"
| "universal_newlines [c] = (if c = CHR 0x0D then [CHR 0x0A] else [c])"
| "universal_newlines (c # d # cs) =
     (if c = CHR 0x0D \<and> d = CHR 0x0A then CHR 0x0A # universal_newlines cs
      else if c = CHR 0x0D then CHR 0x0A # universal_newlines (d # cs)
      else c # universal_newlines (d # cs))"

definition read_bytes :: "filesystem \<Rightarrow> path \<Rightarrow> error + string" where
  "read_bytes fs p =
     (case lookup fs p of
        Inl e \<Rightarrow> Inl (raised e)
      | Inr k \<Rightarrow>
          if k \<in> dirs fs then Inl OSError
          else (case files fs k of None \<Rightarrow> Inl OSError | Some content \<Rightarrow> Inr content))"

definition read_text :: "filesystem \<Rightarrow> path \<Rightarrow> error + string" where
  "read_text fs p =
     (case read_bytes fs p of Inl e \<Rightarrow> Inl e | Inr content \<Rightarrow> Inr (universal_newlines content))"

definition write_text :: "filesystem \<Rightarrow> path \<Rightarrow> string \<Rightarrow> error + filesystem" where
  "write_text fs p content =
     (case lookup fs p of
        Inl e \<Rightarrow> Inl (raised e)
      | Inr k \<Rightarrow>
          if k \<in> dirs fs then Inl OSError
          else Inr (fs\<lparr>files := (files fs)(k \<mapsto> content)\<rparr>))"

text \<open>\<^verbatim>\<open>p.unlink(missing_ok=True)\<close> inside \<^verbatim>\<open>try: ... except Exception: pass\<close>.\<close>

definition unlink_quietly :: "filesystem \<Rightarrow> path \<Rightarrow> filesystem" where
  "unlink_quietly fs p =
     (case lookup fs p of
        Inl e \<Rightarrow> fs
      | Inr k \<Rightarrow> if k \<in> dirs fs then fs else fs\<lparr>files := (files fs)(k := None)\<rparr>)"

text \<open>
  \<^verbatim>\<open>shutil.copy(src, dst)\<close>: into \<open>dst\<close> when \<open>dst\<close> is a directory; the bytes are copied as
  they are, and a file is not copied onto itself.
\<close>

definition copy_file :: "filesystem \<Rightarrow> path \<Rightarrow> path \<Rightarrow> error + filesystem" where
  "copy_file fs src dst =
     (let dst = (if stat fs dst = Inr True \<and> path_name src \<noteq> [] then dst @ [path_name src]
                 else dst)
      in case read_bytes fs src of
           Inl e \<Rightarrow> Inl e
         | Inr content \<Rightarrow>
             (case lookup fs dst of
                Inl e \<Rightarrow> Inl (raised e)
              | Inr k \<Rightarrow> if k = resolve fs src then Inl OSError else write_text fs dst content))"

text \<open>
  \<^verbatim>\<open>src.replace(dst)\<close>, the rename of a file, which cannot put it in the place of a
  directory. \<^verbatim>\<open>atomic_write\<close> renames the file it has just written.
\<close>

definition rename_over :: "filesystem \<Rightarrow> path \<Rightarrow> path \<Rightarrow> error + filesystem" where
  "rename_over fs src dst =
     (case read_bytes fs src of
        Inl e \<Rightarrow> Inl e
      | Inr content \<Rightarrow>
          (case lookup fs dst of
             Inl e \<Rightarrow> Inl (raised e)
           | Inr k \<Rightarrow>
               if k \<in> dirs fs then Inl OSError
               else Inr (fs\<lparr>files := ((files fs)(resolve fs src := None))(k \<mapsto> content)\<rparr>)))"

text \<open>
  \<^verbatim>\<open>os.mkdir\<close>, and \<^verbatim>\<open>Path.mkdir(parents=True, exist_ok=True)\<close> over it: when a part of the
  path is missing the parent is made first, and a directory that is already there is no
  error. The directories made before a failure stay.
\<close>

definition os_mkdir :: "filesystem \<Rightarrow> path \<Rightarrow> failure + filesystem" where
  "os_mkdir fs p =
     (case lookup fs p of
        Inl e \<Rightarrow> Inl e
      | Inr k \<Rightarrow>
          if k \<in> dirs fs \<or> files fs k \<noteq> None then Inl EEXIST
          else Inr (fs\<lparr>dirs := insert k (dirs fs)\<rparr>))"

definition exist_ok :: "filesystem \<Rightarrow> path \<Rightarrow> failure \<Rightarrow> error option" where
  "exist_ok fs p e =
     (if e = EmbeddedNull then Some ValueError
      else if is_dir fs p = Inr True then None
      else Some OSError)"

function py_mkdir :: "filesystem \<Rightarrow> path \<Rightarrow> error option \<times> filesystem" where
  "py_mkdir fs p =
     (case os_mkdir fs p of
        Inr fs1 \<Rightarrow> (None, fs1)
      | Inl e \<Rightarrow>
          if e = ENOENT then
            (if parent p = p then (Some OSError, fs)
             else (case py_mkdir fs (parent p) of
                     (Some e1, fs1) \<Rightarrow> (Some e1, fs1)
                   | (None, fs1) \<Rightarrow>
                       (case os_mkdir fs1 p of
                          Inr fs2 \<Rightarrow> (None, fs2)
                        | Inl e2 \<Rightarrow>
                            (if e2 = ENOENT then Some OSError else exist_ok fs1 p e2, fs1))))
          else (exist_ok fs p e, fs))"
  by pat_completeness auto
termination
  by (relation "measure (\<lambda>(fs, p). length p)") (auto simp: parent_def has_name_def split: if_splits)

declare py_mkdir.simps [simp del]

definition ensure_parent_dir :: "filesystem \<Rightarrow> path \<Rightarrow> error option \<times> filesystem" where
  "ensure_parent_dir fs path = py_mkdir fs (parent path)"

section \<open>Writing files\<close>

definition KEEP_BACKUPS :: bool where
  "KEEP_BACKUPS = False"

definition ATOMIC_WRITE :: bool where
  "ATOMIC_WRITE = True"

definition ALLOWED_FILE_EXTENSIONS :: "string list" where
  "ALLOWED_FILE_EXTENSIONS = [''.py'', ''.js'', ''.json'', ''.md'', ''.txt'', '''']"

text \<open>
  What a handler does: it returns, it returns after it has caught and logged an exception,
  or it raises.
\<close>

datatype outcome = Returned | Caught | Raised error

text \<open>
  A write can fail for reasons the file system above does not show (a full disk, a crash of
  the medium). \<open>fault\<close> says where \<^verbatim>\<open>atomic_write\<close> meets such a failure: nowhere, in
  the write of the temporary file after \<open>k\<close> characters, or in the rename.
\<close>

datatype fault = NoFault | TmpWriteFails nat | ReplaceFails

definition atomic_write :: "fault \<Rightarrow> filesystem \<Rightarrow> path \<Rightarrow> string \<Rightarrow> outcome \<times> filesystem" where
  "atomic_write flt fs path content =
     (case ensure_parent_dir fs path of
        (Some e, fs1) \<Rightarrow> (Raised e, fs1)
      | (None, fs1) \<Rightarrow>
          if \<not> ATOMIC_WRITE then
            (case write_text fs1 path content of
               Inl e \<Rightarrow> (Raised e, fs1)
             | Inr fs2 \<Rightarrow> (Returned, fs2))
          else
            (case with_suffix path (path_suffix path @ ''.tmp'') of
               Inl e \<Rightarrow> (Raised e, fs1)
             | Inr tmp \<Rightarrow>
                 (case write_text fs1 tmp
                         (case flt of TmpWriteFails k \<Rightarrow> take k content | _ \<Rightarrow> content) of
                    Inl e \<Rightarrow> (Raised e, fs1)
                  | Inr fs2 \<Rightarrow>
                      if flt \<noteq> NoFault then (Raised OSError, fs2)
                      else (case rename_over fs2 tmp path of
                              Inl e \<Rightarrow> (Raised e, fs2)
                            | Inr fs3 \<Rightarrow> (Returned, fs3)))))"

text \<open>
  \<open>ts\<close> is the time stamp \<^verbatim>\<open>datetime.now().strftime("%Y%m%d%H%M%S")\<close>. A copy that fails
  is caught; the test for the path and a path without a name raise.
\<close>

definition make_timestamped_backup ::
  "string \<Rightarrow> filesystem \<Rightarrow> path \<Rightarrow> error + (path option \<times> filesystem)"
where
  "make_timestamped_backup ts fs path =
     (case path_exists fs path of
        Inl e \<Rightarrow> Inl e
      | Inr found \<Rightarrow>
          if \<not> found then Inr (None, fs)
          else (case with_name path (path_name path @ ''.bak.'' @ ts) of
                  Inl e \<Rightarrow> Inl e
                | Inr backup \<Rightarrow>
                    (case copy_file fs path backup of
                       Inl e \<Rightarrow> Inr (None, fs)
                     | Inr fs1 \<Rightarrow> Inr (Some backup, fs1))))"

text \<open>
  The end of an \<^verbatim>\<open>except Exception\<close> block that restores,
  \<^verbatim>\<open>if backup and backup.exists(): shutil.copy(str(backup), str(target))\<close>.
\<close>

definition restore_backup :: "filesystem \<Rightarrow> path \<Rightarrow> path option \<Rightarrow> outcome \<times> filesystem" where
  "restore_backup fs target backup =
     (case backup of
        None \<Rightarrow> (Caught, fs)
      | Some b \<Rightarrow>
          (case path_exists fs b of
             Inl e \<Rightarrow> (Raised e, fs)
           | Inr found \<Rightarrow>
               if \<not> found then (Caught, fs)
               else (case copy_file fs b target of
                       Inl e \<Rightarrow> (Raised e, fs)
                     | Inr fs1 \<Rightarrow> (Caught, fs1))))"

text \<open>
  The block that ends the writing handlers,
  \<^verbatim>\<open>try: atomic_write(target, content); if backup and not KEEP_BACKUPS: backup.unlink(...)\<close>
  with its \<^verbatim>\<open>except Exception\<close>, which logs the error and, where \<open>restore\<close> holds, restores
  the backup.
\<close>

definition guarded_write ::
  "bool \<Rightarrow> fault \<Rightarrow> filesystem \<Rightarrow> path \<Rightarrow> string \<Rightarrow> path option \<Rightarrow> outcome \<times> filesystem"
where
  "guarded_write restore flt fs target content backup =
     (case atomic_write flt fs target content of
        (Returned, fs1) \<Rightarrow>
          (Returned,
           (case backup of
              Some b \<Rightarrow> if \<not> KEEP_BACKUPS then unlink_quietly fs1 b else fs1
            | None \<Rightarrow> fs1))
      | (_, fs1) \<Rightarrow> if restore then restore_backup fs1 target backup else (Caught, fs1))"

text \<open>
  The sanitation the handlers run on content from a message:
  \<^verbatim>\<open>_normalize_content_for_writing_from_fence\<close>, then \<^verbatim>\<open>_strip_command_lines\<close> when
  \<^verbatim>\<open>_content_has_command_lines\<close> holds.
\<close>

definition strip_if_command_lines :: "string \<Rightarrow> string" where
  "strip_if_command_lines content =
     (if content_has_command_lines content then strip_command_lines content else content)"

definition sanitize_content :: "string \<Rightarrow> string" where
  "sanitize_content content =
     strip_if_command_lines (normalize_content_for_writing_from_fence content)"

section \<open>The sandbox\<close>

text \<open>
  \<^verbatim>\<open>path_in_sandbox\<close> and \<^verbatim>\<open>_safe_target\<close> over any environment: \<open>rs\<close> is
  \<^verbatim>\<open>Path.resolve\<close> and \<open>ex\<close> is \<^verbatim>\<open>Path.exists\<close>, both with the error they raise.
  \<^verbatim>\<open>is_relative_to\<close> compares the parts. \<open>sandbox_candidate\<close> is the first half of
  \<^verbatim>\<open>_safe_target\<close>: the argument without its quotes, with slashes for backslashes, joined
  onto the base directory (\<^verbatim>\<open>os.path.isabs\<close> looks for a leading slash).
\<close>

definition path_in_sandbox :: "(path \<Rightarrow> error + path) \<Rightarrow> path \<Rightarrow> path \<Rightarrow> bool" where
  "path_in_sandbox rs target base_dir =
     (case rs target of
        Inl e \<Rightarrow> False
      | Inr target_r \<Rightarrow>
          (case rs base_dir of
             Inl e \<Rightarrow> False
           | Inr base_r \<Rightarrow> prefix base_r target_r))"

definition sandbox_candidate :: "path \<Rightarrow> string \<Rightarrow> path" where
  "sandbox_candidate base_dir ai_path =
     (let original = strip_chars [CHR 0x27] (strip_chars [CHR 0x22] (strip ai_path));
          p = map (\<lambda>c. if c = CHR 0x5C then CHR ''/'' else c) original
      in if \<not> startswith p ''/'' then joinpath base_dir p
         else joinpath base_dir (lstrip_chars [CHR ''/'', CHR 0x5C] p))"

definition safe_target ::
  "(path \<Rightarrow> error + path) \<Rightarrow> (path \<Rightarrow> error + bool) \<Rightarrow> path \<Rightarrow> string \<Rightarrow> error + path"
where
  "safe_target rs ex base_dir ai_path =
     (let candidate = sandbox_candidate base_dir ai_path
      in case ex candidate of
           Inl e \<Rightarrow> Inl e
         | Inr found \<Rightarrow>
             (case (if found then rs candidate else Inr candidate) of
                Inl e \<Rightarrow> Inl e
              | Inr candidate \<Rightarrow>
                  if \<not> path_in_sandbox rs candidate base_dir then Inl PermissionError
                  else Inr candidate))"

text \<open>
  The environment a file system gives, and \<^verbatim>\<open>_safe_target\<close> in it. \<^verbatim>\<open>Path.resolve()\<close>
  raises for a path with a null character and for no other.
\<close>

definition fs_resolve :: "filesystem \<Rightarrow> path \<Rightarrow> error + path" where
  "fs_resolve fs p =
     (if list_ex (\<lambda>c. CHR 0x00 \<in> set c) p then Inl ValueError else Inr (resolve fs p))"

definition fs_safe_target :: "filesystem \<Rightarrow> path \<Rightarrow> string \<Rightarrow> error + path" where
  "fs_safe_target fs base_dir ai_path =
     safe_target (fs_resolve fs) (path_exists fs) base_dir ai_path"

section \<open>Command handlers\<close>

text \<open>
  Each handler takes the fault of its write, the time stamp of its backup, the arguments and
  the base directory, and the file system; it gives back its outcome and the file system it
  leaves. A warning is a plain return.
\<close>

text \<open>
  The first part of \<^verbatim>\<open>handle_create_file\<close>, for at least one argument: the target and the
  content, \<open>None\<close> when no argument gives one.
\<close>

definition create_file_plan ::
  "filesystem \<Rightarrow> path \<Rightarrow> string list \<Rightarrow> error + (path \<times> string option)"
where
  "create_file_plan fs base_dir args =
     (let name = args ! 0;
          target = joinpath base_dir name
      in if 2 \<le> length args then
           (let second = args ! 1 in
            if CHR 0x0A \<in> set second then Inr (target, Some (join [CHR 0x0A] (drop 1 args)))
            else
              (let mapped = joinpath base_dir second in
               case (if endswith second ''/'' \<or> endswith second [CHR 0x5C] then Inr True
                     else is_dir fs mapped) of
                 Inl e \<Rightarrow> Inl e
               | Inr into \<Rightarrow>
                   (let target =
                          (if into then joinpath mapped name
                           else if path_suffix mapped \<noteq> [] then mapped
                           else joinpath mapped name)
                    in if 2 < length args \<and> CHR 0x0A \<in> set (args ! 2)
                       then Inr (target, Some (join [CHR 0x0A] (drop 2 args)))
                       else Inr (target, None))))
         else Inr (target, None))"

definition handle_create_file ::
  "fault \<Rightarrow> string \<Rightarrow> string list \<Rightarrow> path \<Rightarrow> filesystem \<Rightarrow> outcome \<times> filesystem"
where
  "handle_create_file flt ts args base_dir fs =
     (if args = [] then (Returned, fs)
      else
        (case create_file_plan fs base_dir args of
           Inl e \<Rightarrow> (Raised e, fs)
         | Inr (target, content) \<Rightarrow>
             if \<not> path_in_sandbox (fs_resolve fs) target base_dir then (Returned, fs)
             else
               (case ensure_parent_dir fs target of
                  (Some e, fs1) \<Rightarrow> (Raised e, fs1)
                | (None, fs1) \<Rightarrow>
                    (case content of
                       None \<Rightarrow>
                         (case path_exists fs1 target of
                            Inl e \<Rightarrow> (Raised e, fs1)
                          | Inr found \<Rightarrow>
                              if \<not> found then atomic_write flt fs1 target []
                              else (Returned, fs1))
                     | Some content \<Rightarrow>
                         (let content = sanitize_content content in
                          if content = [] then (Returned, fs1)
                          else if path_suffix target \<notin> set ALLOWED_FILE_EXTENSIONS
                          then (Returned, fs1)
                          else
                            (case path_exists fs1 target of
                               Inl e \<Rightarrow> (Raised e, fs1)
                             | Inr found \<Rightarrow>
                                 (case (if found then make_timestamped_backup ts fs1 target
                                        else Inr (None, fs1)) of
                                    Inl e \<Rightarrow> (Raised e, fs1)
                                  | Inr (backup, fs2) \<Rightarrow>
                                      guarded_write False flt fs2 target content backup)))))))"

text \<open>The content argument of \<^verbatim>\<open>/set\<close> and \<^verbatim>\<open>/append\<close>, from the arguments after the path.\<close>

definition content_of_args :: "string list \<Rightarrow> string" where
  "content_of_args args =
     (let content_parts = filter (\<lambda>a. CHR 0x0A \<in> set a) (drop 1 args) in
      if content_parts \<noteq> [] then join [CHR 0x0A] content_parts
      else if 2 \<le> length args then join '' '' (drop 1 args)
      else [])"

text \<open>The two forms of \<^verbatim>\<open>/set\<close>, after the target has passed the sandbox.\<close>

definition set_line_in ::
  "fault \<Rightarrow> string \<Rightarrow> filesystem \<Rightarrow> path \<Rightarrow> int \<Rightarrow> string \<Rightarrow> outcome \<times> filesystem"
where
  "set_line_in flt ts fs target line_num new_line =
     (case ensure_parent_dir fs target of
        (Some e, fs1) \<Rightarrow> (Raised e, fs1)
      | (None, fs1) \<Rightarrow>
          (case path_exists fs1 target of
             Inl e \<Rightarrow> (Raised e, fs1)
           | Inr found \<Rightarrow>
               (case (if \<not> found then write_text fs1 target [] else Inr fs1) of
                  Inl e \<Rightarrow> (Raised e, fs1)
                | Inr fs2 \<Rightarrow>
                    (case make_timestamped_backup ts fs2 target of
                       Inl e \<Rightarrow> (Raised e, fs2)
                     | Inr (backup, fs3) \<Rightarrow>
                         (case read_text fs3 target of
                            Inl e \<Rightarrow> (Raised e, fs3)
                          | Inr text \<Rightarrow>
                              guarded_write True flt fs3 target
                                (set_line_text text line_num new_line) backup)))))"

definition set_content_in ::
  "fault \<Rightarrow> string \<Rightarrow> filesystem \<Rightarrow> path \<Rightarrow> string \<Rightarrow> outcome \<times> filesystem"
where
  "set_content_in flt ts fs target content0 =
     (case ensure_parent_dir fs target of
        (Some e, fs1) \<Rightarrow> (Raised e, fs1)
      | (None, fs1) \<Rightarrow>
          (case path_exists fs1 target of
             Inl e \<Rightarrow> (Raised e, fs1)
           | Inr found \<Rightarrow>
               (case (if found then make_timestamped_backup ts fs1 target else Inr (None, fs1)) of
                  Inl e \<Rightarrow> (Raised e, fs1)
                | Inr (backup, fs2) \<Rightarrow>
                    (let content = sanitize_content content0 in
                     case (if content = [] then path_exists fs2 target else Inr False) of
                       Inl e \<Rightarrow> (Raised e, fs2)
                     | Inr unchanged \<Rightarrow>
                         if unchanged then (Returned, fs2)
                         else guarded_write True flt fs2 target content backup))))"

definition handle_set ::
  "fault \<Rightarrow> string \<Rightarrow> string list \<Rightarrow> path \<Rightarrow> filesystem \<Rightarrow> outcome \<times> filesystem"
where
  "handle_set flt ts args base_dir fs =
     (if args = [] then (Returned, fs)
      else if args ! 0 = ''line'' then
        (if length args < 4 then (Returned, fs)
         else
           (case py_int (args ! 1) of
              None \<Rightarrow> (Returned, fs)
            | Some line_num \<Rightarrow>
                (case fs_safe_target fs base_dir (args ! 2) of
                   Inl e \<Rightarrow> (Raised e, fs)
                 | Inr target \<Rightarrow>
                     set_line_in flt ts fs target line_num (join '' '' (drop 3 args)))))
      else
        (case fs_safe_target fs base_dir (args ! 0) of
           Inl e \<Rightarrow> (Raised e, fs)
         | Inr target \<Rightarrow> set_content_in flt ts fs target (content_of_args args)))"

definition handle_append ::
  "fault \<Rightarrow> string \<Rightarrow> string list \<Rightarrow> path \<Rightarrow> filesystem \<Rightarrow> outcome \<times> filesystem"
where
  "handle_append flt ts args base_dir fs =
     (if args = [] then (Returned, fs)
      else
        (case fs_safe_target fs base_dir (args ! 0) of
           Inl e \<Rightarrow> (Raised e, fs)
         | Inr target \<Rightarrow>
             (case ensure_parent_dir fs target of
                (Some e, fs1) \<Rightarrow> (Raised e, fs1)
              | (None, fs1) \<Rightarrow>
                  (let content = sanitize_content (content_of_args args) in
                   if content = [] then (Returned, fs1)
                   else
                     (case path_exists fs1 target of
                        Inl e \<Rightarrow> (Caught, fs1)
                      | Inr found \<Rightarrow>
                          (case (if found then read_text fs1 target else Inr []) of
                             Inl e \<Rightarrow> (Caught, fs1)
                           | Inr existing \<Rightarrow>
                               (case atomic_write flt fs1 target (existing @ content) of
                                  (Returned, fs2) \<Rightarrow> (Returned, fs2)
                                | (_, fs2) \<Rightarrow> (Caught, fs2))))))))"

text \<open>\<^verbatim>\<open>text.replace(old, new)\<close>: every occurrence, from the left, none overlapping.\<close>

fun replace_nonempty :: "string \<Rightarrow> string \<Rightarrow> string \<Rightarrow> string" where
  "replace_nonempty old new [] = []"
| "replace_nonempty old new (c # cs) =
     (if old \<noteq> [] \<and> startswith (c # cs) old
      then new @ replace_nonempty old new (drop (length old - 1) cs)
      else c # replace_nonempty old new cs)"

definition py_replace :: "string \<Rightarrow> string \<Rightarrow> string \<Rightarrow> string" where
  "py_replace text old new =
     (if old = [] then new @ concat (map (\<lambda>c. c # new) text)
      else replace_nonempty old new text)"

text \<open>
  The read-modify-write that \<^verbatim>\<open>/replace\<close> and \<^verbatim>\<open>/patch\<close> share, after the target has passed
  the sandbox: the backup, then inside \<^verbatim>\<open>try\<close> the text read and the new text made from it by
  \<open>edit\<close>, which may raise, then the write.
\<close>

definition rewrite_in ::
  "fault \<Rightarrow> string \<Rightarrow> filesystem \<Rightarrow> path \<Rightarrow> (string \<Rightarrow> error + string) \<Rightarrow> outcome \<times> filesystem"
where
  "rewrite_in flt ts fs target edit =
     (case path_exists fs target of
        Inl e \<Rightarrow> (Raised e, fs)
      | Inr found \<Rightarrow>
          if \<not> found then (Returned, fs)
          else
            (case make_timestamped_backup ts fs target of
               Inl e \<Rightarrow> (Raised e, fs)
             | Inr (backup, fs1) \<Rightarrow>
                 (case read_text fs1 target of
                    Inl e \<Rightarrow> restore_backup fs1 target backup
                  | Inr text \<Rightarrow>
                      (case edit text of
                         Inl e \<Rightarrow> restore_backup fs1 target backup
                       | Inr new_text \<Rightarrow> guarded_write True flt fs1 target new_text backup))))"

definition handle_replace ::
  "fault \<Rightarrow> string \<Rightarrow> string list \<Rightarrow> path \<Rightarrow> filesystem \<Rightarrow> outcome \<times> filesystem"
where
  "handle_replace flt ts args base_dir fs =
     (if length args < 3 then (Returned, fs)
      else
        (case fs_safe_target fs base_dir (args ! 0) of
           Inl e \<Rightarrow> (Raised e, fs)
         | Inr target \<Rightarrow>
             (let old_n = normalize_content_for_writing_from_fence (args ! 1);
                  new_n = normalize_content_for_writing_from_fence (join '' '' (drop 2 args))
              in rewrite_in flt ts fs target
                   (\<lambda>text. Inr (strip_if_command_lines (py_replace text old_n new_n))))))"

definition handle_patch ::
  "fault \<Rightarrow> string \<Rightarrow> string list \<Rightarrow> path \<Rightarrow> filesystem \<Rightarrow> outcome \<times> filesystem"
where
  "handle_patch flt ts args base_dir fs =
     (if length args < 2 then (Returned, fs)
      else
        (case fs_safe_target fs base_dir (args ! 0) of
           Inl e \<Rightarrow> (Raised e, fs)
         | Inr target \<Rightarrow>
             rewrite_in flt ts fs target (\<lambda>text. patch_text text (join [CHR 0x0A] (drop 1 args)))))"

text \<open>The clipboard \<^verbatim>\<open>_internal_clipboard\<close> of \<^verbatim>\<open>/copy_file\<close> and \<^verbatim>\<open>/paste_file\<close>.\<close>

record clipboard =
  clip_content :: "string option"
  clip_path :: "path option"

definition handle_copy_file ::
  "string list \<Rightarrow> path \<Rightarrow> filesystem \<times> clipboard \<Rightarrow> outcome \<times> filesystem \<times> clipboard"
where
  "handle_copy_file args base_dir w =
     (case w of (fs, clip) \<Rightarrow>
        if length args < 1 then (Returned, fs, clip)
        else
          (case fs_safe_target fs base_dir (args ! 0) of
             Inl e \<Rightarrow> (Raised e, fs, clip)
           | Inr src \<Rightarrow>
               (case path_exists fs src of
                  Inl e \<Rightarrow> (Raised e, fs, clip)
                | Inr found \<Rightarrow>
                    (case (if found then is_file fs src else Inr False) of
                       Inl e \<Rightarrow> (Raised e, fs, clip)
                     | Inr regular \<Rightarrow>
                         if \<not> regular then (Returned, fs, clip)
                         else
                           (case read_text fs src of
                              Inl e \<Rightarrow> (Caught, fs, clip)
                            | Inr content \<Rightarrow>
                                (Returned, fs,
                                 \<lparr>clip_content = Some content, clip_path = Some src\<rparr>))))))"

definition handle_paste_file ::
  "fault \<Rightarrow> string \<Rightarrow> string list \<Rightarrow> path \<Rightarrow> filesystem \<times> clipboard \<Rightarrow>
   outcome \<times> filesystem \<times> clipboard"
where
  "handle_paste_file flt ts args base_dir w =
     (case w of (fs, clip) \<Rightarrow>
        if length args < 1 then (Returned, fs, clip)
        else
          (case clip_content clip of
             None \<Rightarrow> (Returned, fs, clip)
           | Some content \<Rightarrow>
               if content = [] then (Returned, fs, clip)
               else
                 (case fs_safe_target fs base_dir (args ! 0) of
                    Inl e \<Rightarrow> (Raised e, fs, clip)
                  | Inr dst \<Rightarrow>
                      (case ensure_parent_dir fs dst of
                         (Some e, fs1) \<Rightarrow> (Raised e, fs1, clip)
                       | (None, fs1) \<Rightarrow>
                           if path_suffix dst \<notin> set ALLOWED_FILE_EXTENSIONS
                           then (Returned, fs1, clip)
                           else
                             (case path_exists fs1 dst of
                                Inl e \<Rightarrow> (Raised e, fs1, clip)
                              | Inr found \<Rightarrow>
                                  (case (if found then make_timestamped_backup ts fs1 dst
                                         else Inr (None, fs1)) of
                                     Inl e \<Rightarrow> (Raised e, fs1, clip)
                                   | Inr (backup, fs2) \<Rightarrow>
                                       (case guarded_write True flt fs2 dst content backup of
                                          (r, fs3) \<Rightarrow> (r, fs3, clip))))))))"

section \<open>Notions the claims are stated with\<close>









text \<open>
  What a step leaves alone: the working directory stays, directories are only added, and
  outside the places \<open>ks\<close> every file keeps its bytes.
\<close>

definition frame :: "filesystem \<Rightarrow> filesystem \<Rightarrow> path set \<Rightarrow> bool" where
  "frame fs fs' ks =
     (cwd fs' = cwd fs \<and> dirs fs \<subseteq> dirs fs' \<and> (\<forall>k. k \<notin> ks \<longrightarrow> files fs' k = files fs k))"

text \<open>What a handler knows of its backup when it starts to write.\<close>

definition backup_of :: "filesystem \<Rightarrow> string \<Rightarrow> path \<Rightarrow> path option \<Rightarrow> bool" where
  "backup_of fs ts t b =
     (case b of
        None \<Rightarrow> True
      | Some bp \<Rightarrow> has_name t \<and> bp = butlast t @ [path_name t @ ''.bak.'' @ ts] \<and>
                   (resolve fs bp \<in> dirs fs \<or> files fs (resolve fs bp) = files fs (resolve fs t)))"

(*DEFS-END*)

section \<open>Lines and line boundaries\<close>

lemma splitlines_no_linebreak_all:
  "\<forall>ln \<in> set (splitlines s). \<forall>x \<in> set ln. \<not> is_linebreak x"
proof (induction s rule: splitlines.induct)
  case 1
  then show ?case by simp
next
  case (2 c)
  then show ?case by simp
next
  case (3 c d cs)
  show ?case
  proof (cases "c = CHR 0x0D \<and> d = CHR 0x0A")
    case True
    with 3(1) show ?thesis by simp
  next
    case nocrlf: False
    show ?thesis
    proof (cases "is_linebreak c")
      case True
      with nocrlf 3(2) show ?thesis by auto
    next
      case nolb: False
      from nocrlf nolb 3(3)
      have IH: "\<forall>ln \<in> set (splitlines (d # cs)). \<forall>x \<in> set ln. \<not> is_linebreak x"
        by blast
      show ?thesis
      proof (cases "splitlines (d # cs)")
        case Nil
        with nocrlf nolb show ?thesis by auto
      next
        case (Cons l ls)
        with IH have "\<forall>x \<in> set l. \<not> is_linebreak x"
          and "\<forall>ln \<in> set ls. \<forall>x \<in> set ln. \<not> is_linebreak x"
          by simp_all
        with nocrlf nolb Cons show ?thesis by auto
      qed
    qed
  qed
qed

lemma splitlines_no_linebreak:
  "ln \<in> set (splitlines s) \<Longrightarrow> x \<in> set ln \<Longrightarrow> \<not> is_linebreak x"
  using splitlines_no_linebreak_all by blast

lemma cr_is_linebreak: "is_linebreak (CHR 0x0D)"
  and lf_is_linebreak: "is_linebreak (CHR 0x0A)"
  by (simp_all add: is_linebreak_def)

lemma splitlines_line_then_newline:
  "\<forall>x \<in> set l. \<not> is_linebreak x \<Longrightarrow> splitlines (l @ CHR 0x0A # rest) = l # splitlines rest"
proof (induction l)
  case Nil
  then show ?case by (cases rest) (simp_all add: lf_is_linebreak)
next
  case (Cons x l)
  then have nx: "\<not> is_linebreak x"
    and IH: "splitlines (l @ CHR 0x0A # rest) = l # splitlines rest"
    by simp_all
  obtain d cs where dcs: "l @ CHR 0x0A # rest = d # cs"
    by (cases "l @ CHR 0x0A # rest") auto
  from nx have "x \<noteq> CHR 0x0D" using cr_is_linebreak by auto
  with nx IH dcs show ?case by simp
qed

lemma splitlines_single_line:
  "\<forall>x \<in> set l. \<not> is_linebreak x \<Longrightarrow> splitlines l = (if l = [] then [] else [l])"
proof (induction l rule: splitlines.induct)
  case 1
  then show ?case by simp
next
  case (2 c)
  then show ?case by simp
next
  case (3 c d cs)
  then show ?case using cr_is_linebreak by auto
qed

lemma splitlines_join:
  "\<forall>l \<in> set ls. \<forall>x \<in> set l. \<not> is_linebreak x \<Longrightarrow>
   splitlines (join [CHR 0x0A] ls) = (if ls \<noteq> [] \<and> last ls = [] then butlast ls else ls)"
proof (induction "[CHR 0x0A]" ls rule: join.induct)
  case 1
  then show ?case by simp
next
  case (2 l)
  then show ?case by (simp add: splitlines_single_line)
next
  case (3 l m ls)
  then show ?case by (simp add: splitlines_line_then_newline)
qed

lemma join_snoc_empty: "ls \<noteq> [] \<Longrightarrow> join sep (ls @ [[]]) = join sep ls @ sep"
  by (induction sep ls rule: join.induct) simp_all

lemma filter_butlast_id:
  "\<forall>l \<in> set ls. P l \<Longrightarrow> filter P (butlast ls) = butlast ls"
  by (metis filter_True in_set_butlastD)

section \<open>The sanitizer\<close>

lemma kept_lines_props:
  "\<forall>l \<in> set (kept_lines s). \<forall>x \<in> set l. \<not> is_linebreak x"
  "\<forall>l \<in> set (kept_lines s). \<not> is_command_line l"
  using splitlines_no_linebreak by (auto simp: kept_lines_def)

lemma splitlines_strip_command_lines:
  "splitlines (strip_command_lines s) =
     (if kept_lines s \<noteq> [] \<and> last (kept_lines s) = [] then butlast (kept_lines s)
      else kept_lines s)"
  unfolding strip_command_lines_def kept_lines_def [symmetric]
  by (rule splitlines_join) (rule kept_lines_props(1))

lemma set_splitlines_strip: "set (splitlines (strip_command_lines s)) \<subseteq> set (kept_lines s)"
  by (auto simp: splitlines_strip_command_lines dest: in_set_butlastD)

lemma strip_no_command_lines: "\<not> content_has_command_lines (strip_command_lines s)"
  using set_splitlines_strip [of s] kept_lines_props(2) [of s]
  by (auto simp: content_has_command_lines_def list_ex_iff)

lemma strip_strip:
  "strip_command_lines (strip_command_lines s) = strip_command_lines s \<or>
   strip_command_lines (strip_command_lines s) @ [CHR 0x0A] = strip_command_lines s"
proof -
  let ?k = "kept_lines s"
  let ?keep = "\<lambda>ln. \<not> is_command_line ln"
  have s1: "strip_command_lines s = join [CHR 0x0A] ?k"
    by (simp add: strip_command_lines_def kept_lines_def)
  have nocmd: "\<forall>l \<in> set ?k. \<not> is_command_line l" by (rule kept_lines_props(2))
  show ?thesis
  proof (cases "?k \<noteq> [] \<and> last ?k = []")
    case False
    then have "splitlines (strip_command_lines s) = ?k"
      by (auto simp: splitlines_strip_command_lines)
    then have "strip_command_lines (strip_command_lines s) = join [CHR 0x0A] (filter ?keep ?k)"
      by (simp add: strip_command_lines_def [of "strip_command_lines s"])
    also have "filter ?keep ?k = ?k"
      using nocmd by simp
    finally show ?thesis using s1 by simp
  next
    case True
    then have sp: "splitlines (strip_command_lines s) = butlast ?k"
      by (simp add: splitlines_strip_command_lines)
    have "filter ?keep (butlast ?k) = butlast ?k"
      using nocmd by (rule filter_butlast_id)
    with sp have s2: "strip_command_lines (strip_command_lines s) = join [CHR 0x0A] (butlast ?k)"
      by (simp add: strip_command_lines_def [of "strip_command_lines s"])
    from True have k: "?k = butlast ?k @ [[]]"
      by (metis append_butlast_last_id)
    show ?thesis
    proof (cases "butlast ?k = []")
      case True
      with k have "?k = [[]]" by simp
      with s1 s2 True show ?thesis by simp
    next
      case False
      then have "join [CHR 0x0A] (butlast ?k @ [[]]) = join [CHR 0x0A] (butlast ?k) @ [CHR 0x0A]"
        by (rule join_snoc_empty)
      with k s1 s2 show ?thesis by simp
    qed
  qed
qed

lemma strip_twice_eq:
  "(strip_command_lines (strip_command_lines s) = strip_command_lines s) =
     (\<not> (2 \<le> length (kept_lines s) \<and> last (kept_lines s) = []))"
proof -
  let ?k = "kept_lines s"
  let ?keep = "\<lambda>ln. \<not> is_command_line ln"
  have s1: "strip_command_lines s = join [CHR 0x0A] ?k"
    by (simp add: strip_command_lines_def kept_lines_def)
  have nocmd: "\<forall>l \<in> set ?k. \<not> is_command_line l" by (rule kept_lines_props(2))
  show ?thesis
  proof (cases "?k \<noteq> [] \<and> last ?k = []")
    case False
    then have "splitlines (strip_command_lines s) = ?k"
      by (auto simp: splitlines_strip_command_lines)
    then have "strip_command_lines (strip_command_lines s) = join [CHR 0x0A] (filter ?keep ?k)"
      by (simp add: strip_command_lines_def [of "strip_command_lines s"])
    also have "filter ?keep ?k = ?k"
      using nocmd by simp
    finally show ?thesis using s1 False by auto
  next
    case True
    then have sp: "splitlines (strip_command_lines s) = butlast ?k"
      by (simp add: splitlines_strip_command_lines)
    have "filter ?keep (butlast ?k) = butlast ?k"
      using nocmd by (rule filter_butlast_id)
    with sp have s2: "strip_command_lines (strip_command_lines s) = join [CHR 0x0A] (butlast ?k)"
      by (simp add: strip_command_lines_def [of "strip_command_lines s"])
    from True have k: "?k = butlast ?k @ [[]]"
      by (metis append_butlast_last_id)
    show ?thesis
    proof (cases "butlast ?k = []")
      case True
      with k have "?k = [[]]" by simp
      with s1 s2 True show ?thesis by simp
    next
      case False
      then have "join [CHR 0x0A] (butlast ?k @ [[]]) = join [CHR 0x0A] (butlast ?k) @ [CHR 0x0A]"
        by (rule join_snoc_empty)
      with k s1 s2 have "strip_command_lines (strip_command_lines s) @ [CHR 0x0A] = strip_command_lines s"
        by simp
      then have "strip_command_lines (strip_command_lines s) \<noteq> strip_command_lines s"
        by (metis append_self_conv list.distinct(1))
      moreover from False True have "2 \<le> length ?k \<and> last ?k = []"
        by (cases ?k rule: rev_cases) (auto simp: Suc_le_eq)
      ultimately show ?thesis by simp
    qed
  qed
qed

text \<open>
  Claim C10, as amended. After \<^verbatim>\<open>_strip_command_lines\<close> the predicate
  \<^verbatim>\<open>_content_has_command_lines\<close> is false for every string. A second pass returns the
  result of the first pass or that result without its final line feed, and it returns the
  result of the first pass unchanged exactly when the first pass did not keep two lines or
  more of which the last is empty (the first pass joins an empty last line, which
  \<^verbatim>\<open>splitlines\<close> then drops).
\<close>

theorem C10_strip_leaves_no_command_lines:
  "\<not> content_has_command_lines (strip_command_lines s) \<and>
   (strip_command_lines (strip_command_lines s) = strip_command_lines s \<or>
    strip_command_lines (strip_command_lines s) @ [CHR 0x0A] = strip_command_lines s) \<and>
   ((strip_command_lines (strip_command_lines s) = strip_command_lines s) =
      (\<not> (2 \<le> length (kept_lines s) \<and> last (kept_lines s) = [])))"
  using strip_no_command_lines [of s] strip_strip [of s] strip_twice_eq [of s] by blast

text \<open>
  Claim C10 as stated fails: \<^verbatim>\<open>_strip_command_lines\<close> is not idempotent on
  \<^verbatim>\<open>"a\n\n"\<close>, which it turns into \<^verbatim>\<open>"a\n"\<close> and then into \<^verbatim>\<open>"a"\<close>.
\<close>

theorem C10_strip_not_idempotent:
  "strip_command_lines (strip_command_lines [CHR ''a'', CHR 0x0A, CHR 0x0A])
     \<noteq> strip_command_lines [CHR ''a'', CHR 0x0A, CHR 0x0A]"
  by (simp add: strip_command_lines_def is_command_line_def is_linebreak_def isspace_def)

section \<open>The tokenizer\<close>

text \<open>
  Claim C4. The text \<^verbatim>\<open>"/create_file a.txt\n```\nhello\n```\n"\<close> yields exactly one command,
  \<^verbatim>\<open>create_file\<close> with the arguments \<^verbatim>\<open>"a.txt"\<close> and \<^verbatim>\<open>"hello\n"\<close>.
\<close>

theorem C4_tokenizer_round_trip:
  "find_commands_in_text
     (''/create_file a.txt'' @ [CHR 0x0A, CHR 0x60, CHR 0x60, CHR 0x60, CHR 0x0A]
        @ ''hello'' @ [CHR 0x0A, CHR 0x60, CHR 0x60, CHR 0x60, CHR 0x0A])
   = [(''create_file'', [''a.txt'', ''hello'' @ [CHR 0x0A]])]"
  by code_simp

section \<open>The tokenizer: where commands start and arguments end\<close>

lemma skip_space_ge: "pos \<le> skip_space t pos"
  by (induction t pos rule: skip_space.induct) (subst skip_space.simps, auto)































section \<open>The patch\<close>

lemma pad_lines_eq: "pad_lines lines idx = lines @ replicate (idx - length lines) []"
proof (induction lines idx rule: pad_lines.induct)
  case (1 lines idx)
  show ?case
  proof (cases "length lines < idx")
    case True
    then have "idx - length lines = Suc (idx - Suc (length lines))" by simp
    with 1 True show ?thesis
      by (subst pad_lines.simps) (simp add: replicate_app_Cons_same)
  next
    case False
    then show ?thesis by (subst pad_lines.simps) simp
  qed
qed

lemma removes_order_sorted: "sorted (rev (map fst (removes_order ops)))"
  by (simp add: removes_order_def rev_map [symmetric])

lemma removes_order_mset:
  "mset (removes_order ops) = filter_mset (\<lambda>o1. fst (snd o1) = CHR ''-'') (mset ops)"
  by (simp add: removes_order_def)

lemma inserts_order_sorted: "sorted (map fst (inserts_order ops))"
  by (simp add: inserts_order_def)

lemma inserts_order_mset:
  "mset (inserts_order ops) = filter_mset (\<lambda>o1. fst (snd o1) = CHR ''+'') (mset ops)"
  by (simp add: inserts_order_def)

lemma apply_remove_eq:
  "apply_remove lines (n, op, t) =
     (if 1 \<le> n \<and> n \<le> length lines \<and> (t = [] \<or> strip (lines ! (n - 1)) = strip t)
      then take (n - 1) lines @ drop n lines else lines)"
  by (auto simp: apply_remove_def remove_step_def)

lemma apply_insert_eq:
  "apply_insert lines (n, op, t) =
     take (n - 1) (lines @ replicate (n - 1 - length lines) []) @ [t]
       @ drop (n - 1) (lines @ replicate (n - 1 - length lines) [])"
  by (simp add: apply_insert_def pad_lines_eq Let_def)

section \<open>Fingerprints\<close>













section \<open>Resolved paths\<close>

lemma collapse_step_nonempty: "acc \<noteq> [] \<Longrightarrow> collapse_step acc n \<noteq> []"
  by (cases acc rule: rev_cases) (auto simp: collapse_step_def)

lemma collapse_step_hd: "acc \<noteq> [] \<Longrightarrow> hd (collapse_step acc n) = hd acc"
  by (cases acc rule: rev_cases) (auto simp: collapse_step_def butlast_append hd_append)

lemma foldl_collapse_nonempty: "acc \<noteq> [] \<Longrightarrow> foldl collapse_step acc ps \<noteq> []"
  by (induction ps arbitrary: acc) (simp_all add: collapse_step_nonempty)

lemma foldl_collapse_hd: "acc \<noteq> [] \<Longrightarrow> hd (foldl collapse_step acc ps) = hd acc"
  by (induction ps arbitrary: acc) (simp_all add: collapse_step_nonempty collapse_step_hd)

lemma resolve_absolute:
  "is_absolute p \<Longrightarrow> resolve fs p = foldl collapse_step [hd p] (tl p)"
  by (cases p) (simp_all add: resolve_def is_absolute_def)

lemma resolve_is_absolute: "is_absolute p \<Longrightarrow> is_absolute (resolve fs p)"
proof -
  assume a: "is_absolute p"
  then obtain r rest where p: "p = r # rest" by (cases p) (simp_all add: is_absolute_def)
  have "foldl collapse_step [r] rest \<noteq> []" "hd (foldl collapse_step [r] rest) = r"
    by (simp_all add: foldl_collapse_nonempty foldl_collapse_hd)
  with a p show ?thesis
    by (cases "foldl collapse_step [r] rest") (simp_all add: resolve_absolute is_absolute_def)
qed

lemma is_absolute_append: "is_absolute p \<Longrightarrow> is_absolute (p @ q)"
  by (cases p) (simp_all add: is_absolute_def)

lemma resolve_snoc:
  "is_absolute p \<Longrightarrow> resolve fs (p @ [n]) = collapse_step (resolve fs p) n"
  by (cases p) (simp_all add: resolve_absolute is_absolute_append is_absolute_def)

lemma resolve_nonempty: "is_absolute p \<Longrightarrow> resolve fs p \<noteq> []"
  using resolve_is_absolute [of p fs] by (auto simp: is_absolute_def)

lemma collapse_step_name_neq:
  "acc \<noteq> [] \<Longrightarrow> n' \<noteq> ''..'' \<Longrightarrow> n' \<noteq> n \<Longrightarrow> collapse_step acc n' \<noteq> collapse_step acc n"
  by (cases acc rule: rev_cases) (auto simp: collapse_step_def)

lemma has_name_split:
  "has_name t \<Longrightarrow> is_absolute t \<Longrightarrow> t = butlast t @ [path_name t] \<and> is_absolute (butlast t)"
  by (cases t rule: rev_cases) (auto simp: has_name_def path_name_def is_absolute_def split: list.splits)

text \<open>A sibling under another name, which is not \<open>..\<close>, lies at another resolved path.\<close>

lemma sibling_key_neq:
  assumes "has_name t" "is_absolute t" "n' \<noteq> ''..''" "n' \<noteq> path_name t"
  shows "resolve fs (butlast t @ [n']) \<noteq> resolve fs t"
proof -
  from has_name_split [OF assms(1,2)]
  have t: "t = butlast t @ [path_name t]" and a: "is_absolute (butlast t)" by simp_all
  have "resolve fs t = collapse_step (resolve fs (butlast t)) (path_name t)"
    using resolve_snoc [OF a, of fs "path_name t"] t by simp
  moreover have "resolve fs (butlast t @ [n']) = collapse_step (resolve fs (butlast t)) n'"
    by (rule resolve_snoc [OF a])
  ultimately show ?thesis
    using collapse_step_name_neq [OF resolve_nonempty [OF a, of fs] assms(3,4)] by simp
qed

lemma child_key_neq:
  "is_absolute t \<Longrightarrow> n \<noteq> ''..'' \<Longrightarrow> resolve fs (t @ [n]) \<noteq> resolve fs t"
  by (simp add: resolve_snoc collapse_step_def)

lemma name_suffix_is_suffix: "take (length n - length (name_suffix n)) n @ name_suffix n = n"
  by (simp add: name_suffix_def Let_def)

lemma with_suffix_tmp:
  "has_name t \<Longrightarrow> with_suffix t (path_suffix t @ ''.tmp'') = Inr (butlast t @ [path_name t @ ''.tmp''])"
  using name_suffix_is_suffix [of "path_name t"]
  by (simp add: with_suffix_def path_suffix_def)

lemma with_suffix_no_name: "\<not> has_name t \<Longrightarrow> with_suffix t s = Inl ValueError"
  by (simp add: with_suffix_def)

lemma tmp_key_neq:
  "has_name t \<Longrightarrow> is_absolute t \<Longrightarrow> resolve fs (butlast t @ [path_name t @ ''.tmp'']) \<noteq> resolve fs t"
  by (rule sibling_key_neq) auto

lemma bak_key_neq:
  "has_name t \<Longrightarrow> is_absolute t \<Longrightarrow> resolve fs (butlast t @ [path_name t @ ''.bak.'' @ ts]) \<noteq> resolve fs t"
  by (rule sibling_key_neq) auto

lemma tmp_bak_key_neq:
  "has_name t \<Longrightarrow> is_absolute t \<Longrightarrow>
   resolve fs (butlast t @ [path_name t @ ''.tmp'']) \<noteq> resolve fs (butlast t @ [path_name t @ ''.bak.'' @ ts])"
proof -
  assume h: "has_name t" "is_absolute t"
  from has_name_split [OF h] have a: "is_absolute (butlast t)" by simp
  have "collapse_step (resolve fs (butlast t)) (path_name t @ ''.tmp'')
        \<noteq> collapse_step (resolve fs (butlast t)) (path_name t @ ''.bak.'' @ ts)"
    by (rule collapse_step_name_neq [OF resolve_nonempty [OF a]]) auto
  then show ?thesis by (simp add: resolve_snoc [OF a])
qed

section \<open>What the primitives change\<close>

lemma frame_refl: "frame fs fs ks"
  by (simp add: frame_def)

lemma frame_mono: "frame fs fs' A \<Longrightarrow> A \<subseteq> B \<Longrightarrow> frame fs fs' B"
  by (auto simp: frame_def)

lemma frame_trans: "frame fs fs1 A \<Longrightarrow> frame fs1 fs2 B \<Longrightarrow> frame fs fs2 (A \<union> B)"
  by (auto simp: frame_def)

lemma frame_trans_sub:
  "frame fs fs1 A \<Longrightarrow> frame fs1 fs2 B \<Longrightarrow> A \<subseteq> C \<Longrightarrow> B \<subseteq> C \<Longrightarrow> frame fs fs2 C"
  using frame_mono [OF frame_trans, of fs fs1 A fs2 B C] by simp

lemma resolve_cwd: "cwd fs1 = cwd fs \<Longrightarrow> resolve fs1 p = resolve fs p"
  by (simp add: resolve_def)

lemma frame_resolve: "frame fs fs' A \<Longrightarrow> resolve fs' p = resolve fs p"
  using resolve_cwd [of fs' fs p] by (simp add: frame_def)

lemma frame_files: "frame fs fs' A \<Longrightarrow> k \<notin> A \<Longrightarrow> files fs' k = files fs k"
  by (simp add: frame_def)

lemma frame_dirs: "frame fs fs' A \<Longrightarrow> k \<in> dirs fs \<Longrightarrow> k \<in> dirs fs'"
  by (auto simp: frame_def)

lemma walk_key: "walk fs cur cs = Inr k \<Longrightarrow> k = foldl collapse_step cur cs"
  by (induction cs arbitrary: cur) (auto split: if_splits)

lemma lookup_key: "lookup fs p = Inr k \<Longrightarrow> k = resolve fs p"
  by (auto simp: lookup_def resolve_def dest: walk_key split: if_splits list.splits)

lemma raised_cases: "raised e = OSError \<or> raised e = ValueError"
  by (simp add: raised_def)

lemma raised_not_permission [simp]: "raised e \<noteq> PermissionError"
  by (simp add: raised_def)

lemma write_text_effect:
  "write_text fs p c = Inr fs1 \<Longrightarrow>
   fs1 = fs\<lparr>files := (files fs)(resolve fs p \<mapsto> c)\<rparr> \<and> resolve fs p \<notin> dirs fs \<and>
   lookup fs p = Inr (resolve fs p)"
  by (auto simp: write_text_def dest: lookup_key split: sum.splits if_splits)

lemma write_text_frame:
  "write_text fs p c = Inr fs1 \<Longrightarrow>
   frame fs fs1 {resolve fs p} \<and> files fs1 (resolve fs p) = Some c \<and> dirs fs1 = dirs fs"
  by (auto dest!: write_text_effect simp: frame_def)

lemma write_text_error: "write_text fs p c = Inl e \<Longrightarrow> e \<noteq> PermissionError"
  by (auto simp: write_text_def split: sum.splits if_splits)

lemma read_bytes_effect:
  "read_bytes fs p = Inr c \<Longrightarrow>
   files fs (resolve fs p) = Some c \<and> resolve fs p \<notin> dirs fs \<and> lookup fs p = Inr (resolve fs p)"
  by (auto simp: read_bytes_def dest: lookup_key split: sum.splits if_splits option.splits)

lemma read_bytes_error: "read_bytes fs p = Inl e \<Longrightarrow> e \<noteq> PermissionError"
  by (auto simp: read_bytes_def split: sum.splits if_splits option.splits)

lemma read_text_effect:
  "read_text fs p = Inr c \<Longrightarrow>
   \<exists>b. files fs (resolve fs p) = Some b \<and> c = universal_newlines b \<and> resolve fs p \<notin> dirs fs"
  by (auto simp: read_text_def dest: read_bytes_effect split: sum.splits)

lemma read_text_error: "read_text fs p = Inl e \<Longrightarrow> e \<noteq> PermissionError"
  by (auto simp: read_text_def dest: read_bytes_error split: sum.splits)

lemma unlink_quietly_frame:
  "frame fs (unlink_quietly fs p) {resolve fs p} \<and> dirs (unlink_quietly fs p) = dirs fs"
  by (auto simp: unlink_quietly_def frame_def dest: lookup_key split: sum.splits)

lemma copy_file_effect:
  assumes "copy_file fs src dst = Inr fs1"
  shows "\<exists>k c. files fs (resolve fs src) = Some c \<and> resolve fs src \<notin> dirs fs \<and>
           k \<noteq> resolve fs src \<and> fs1 = fs\<lparr>files := (files fs)(k \<mapsto> c)\<rparr> \<and>
           (k = resolve fs dst \<or>
            resolve fs dst \<in> dirs fs \<and> k = resolve fs (dst @ [path_name src]))"
proof -
  let ?d = "if stat fs dst = Inr True \<and> path_name src \<noteq> [] then dst @ [path_name src] else dst"
  from assms obtain c where rd: "read_bytes fs src = Inr c"
    by (auto simp: copy_file_def Let_def split: sum.splits)
  with assms obtain k where lk: "lookup fs ?d = Inr k" and ne: "k \<noteq> resolve fs src"
    and wr: "write_text fs ?d c = Inr fs1"
    by (auto simp: copy_file_def Let_def split: sum.splits if_splits)
  from lookup_key [OF lk] have k: "k = resolve fs ?d" .
  have "k = resolve fs dst \<or> resolve fs dst \<in> dirs fs \<and> k = resolve fs (dst @ [path_name src])"
    unfolding k by (auto simp: stat_def dest: lookup_key split: sum.splits if_splits)
  with read_bytes_effect [OF rd] write_text_effect [OF wr] ne k show ?thesis by auto
qed

lemma copy_file_error: "copy_file fs src dst = Inl e \<Longrightarrow> e \<noteq> PermissionError"
  by (auto simp: copy_file_def Let_def dest: read_bytes_error write_text_error
      split: sum.splits if_splits)

lemma rename_over_effect:
  "rename_over fs src dst = Inr fs1 \<Longrightarrow>
   \<exists>c. files fs (resolve fs src) = Some c \<and> resolve fs dst \<notin> dirs fs \<and>
     fs1 = fs\<lparr>files := ((files fs)(resolve fs src := None))(resolve fs dst \<mapsto> c)\<rparr>"
  by (auto simp: rename_over_def dest: read_bytes_effect lookup_key split: sum.splits if_splits)

lemma rename_over_error: "rename_over fs src dst = Inl e \<Longrightarrow> e \<noteq> PermissionError"
  by (auto simp: rename_over_def dest: read_bytes_error split: sum.splits if_splits)

lemma os_mkdir_effect:
  "os_mkdir fs p = Inr fs1 \<Longrightarrow>
   fs1 = fs\<lparr>dirs := insert (resolve fs p) (dirs fs)\<rparr> \<and> files fs (resolve fs p) = None"
  by (auto simp: os_mkdir_def dest: lookup_key split: sum.splits if_splits)

lemma exist_ok_error: "exist_ok fs p e = Some e' \<Longrightarrow> e' \<noteq> PermissionError"
  by (auto simp: exist_ok_def split: if_splits)

text \<open>
  Making directories changes no file and makes no directory where a file is.
\<close>

lemma py_mkdir_keeps:
  "py_mkdir fs p = (r, fs1) \<Longrightarrow>
   files fs1 = files fs \<and> cwd fs1 = cwd fs \<and> dirs fs \<subseteq> dirs fs1 \<and>
   (\<forall>k \<in> dirs fs1. k \<in> dirs fs \<or> files fs k = None) \<and> r \<noteq> Some PermissionError"
proof (induction fs p arbitrary: r fs1 rule: py_mkdir.induct)
  case (1 fs p)
  show ?case
  proof (cases "os_mkdir fs p")
    case (Inr fsa)
    with "1.prems" os_mkdir_effect [OF Inr] show ?thesis
      by (subst (asm) py_mkdir.simps) auto
  next
    case (Inl e)
    show ?thesis
    proof (cases "e = ENOENT \<and> parent p \<noteq> p")
      case False
      with "1.prems" Inl show ?thesis
        by (subst (asm) py_mkdir.simps) (auto dest: exist_ok_error split: if_splits)
    next
      case True
      obtain r' fsa where rec: "py_mkdir fs (parent p) = (r', fsa)"
        by (cases "py_mkdir fs (parent p)")
      from "1.IH" [OF Inl _ _ rec] True
      have ih: "files fsa = files fs" "cwd fsa = cwd fs" "dirs fs \<subseteq> dirs fsa"
        "\<forall>k \<in> dirs fsa. k \<in> dirs fs \<or> files fs k = None" "r' \<noteq> Some PermissionError"
        by simp_all
      show ?thesis
      proof (cases r')
        case (Some e1)
        with "1.prems" Inl True rec ih show ?thesis
          by (subst (asm) py_mkdir.simps) auto
      next
        case None
        show ?thesis
        proof (cases "os_mkdir fsa p")
          case (Inr fsb)
          from os_mkdir_effect [OF Inr] ih None "1.prems" Inl True rec Inr show ?thesis
            by (subst (asm) py_mkdir.simps) auto
        next
          case e2: (Inl e2)
          with None "1.prems" Inl True rec ih show ?thesis
            by (subst (asm) py_mkdir.simps) (auto dest: exist_ok_error split: if_splits)
        qed
      qed
    qed
  qed
qed

lemma ensure_parent_dir_keeps:
  "ensure_parent_dir fs p = (r, fs1) \<Longrightarrow>
   files fs1 = files fs \<and> cwd fs1 = cwd fs \<and> dirs fs \<subseteq> dirs fs1 \<and>
   (\<forall>k \<in> dirs fs1. k \<in> dirs fs \<or> files fs k = None) \<and> r \<noteq> Some PermissionError"
  unfolding ensure_parent_dir_def by (rule py_mkdir_keeps)

lemma ensure_parent_dir_frame: "ensure_parent_dir fs p = (r, fs1) \<Longrightarrow> frame fs fs1 {}"
  by (auto dest!: ensure_parent_dir_keeps simp: frame_def)

section \<open>The atomic write\<close>

lemma atomic_write_effect:
  assumes aw: "atomic_write flt fs t c = (r, fs')" and abs: "is_absolute t"
  shows "frame fs fs' {resolve fs t, resolve fs (butlast t @ [path_name t @ ''.tmp''])} \<and>
         (r = Returned \<longrightarrow> files fs' (resolve fs t) = Some c \<and> flt = NoFault) \<and>
         (r \<noteq> Returned \<longrightarrow> files fs' (resolve fs t) = files fs (resolve fs t)) \<and>
         r \<noteq> Caught \<and> r \<noteq> Raised PermissionError"
proof -
  let ?K = "resolve fs t" and ?tmp = "butlast t @ [path_name t @ ''.tmp'']"
  let ?T = "resolve fs ?tmp"
  obtain r0 fs1 where en: "ensure_parent_dir fs t = (r0, fs1)"
    by (cases "ensure_parent_dir fs t")
  note k1 = ensure_parent_dir_keeps [OF en]
  from ensure_parent_dir_frame [OF en] have f1: "frame fs fs1 {?K, ?T}"
    by (rule frame_mono) simp
  from k1 have same1: "files fs1 ?K = files fs ?K" by simp
  show ?thesis
  proof (cases r0)
    case (Some e)
    with aw en have "r = Raised e" "fs' = fs1" by (simp_all add: atomic_write_def)
    with f1 same1 k1 Some show ?thesis by auto
  next
    case None
    show ?thesis
    proof (cases "has_name t")
      case False
      with aw en None have "r = Raised ValueError" "fs' = fs1"
        by (simp_all add: atomic_write_def ATOMIC_WRITE_def with_suffix_no_name)
      with f1 same1 show ?thesis by auto
    next
      case True
      note ws = with_suffix_tmp [OF True]
      note neq = tmp_key_neq [OF True abs, of fs]
      let ?c = "case flt of TmpWriteFails k \<Rightarrow> take k c | _ \<Rightarrow> c"
      show ?thesis
      proof (cases "write_text fs1 ?tmp ?c")
        case (Inl e)
        with aw en None ws have "r = Raised e" "fs' = fs1"
          by (simp_all add: atomic_write_def ATOMIC_WRITE_def)
        with f1 same1 write_text_error [OF Inl] show ?thesis by auto
      next
        case (Inr fs2)
        from frame_resolve [OF f1] have r1: "resolve fs1 p = resolve fs p" for p .
        from write_text_frame [OF Inr] r1
        have w: "frame fs1 fs2 {?T}" "files fs2 ?T = Some ?c" by simp_all
        from f1 w(1) have f2: "frame fs fs2 {?K, ?T}" by (rule frame_trans_sub) simp_all
        from frame_files [OF w(1), of ?K] neq same1 have same2: "files fs2 ?K = files fs ?K"
          by simp
        show ?thesis
        proof (cases "flt = NoFault")
          case False
          with aw en None ws Inr have "r = Raised OSError" "fs' = fs2"
            by (simp_all add: atomic_write_def ATOMIC_WRITE_def)
          with f2 same2 show ?thesis by auto
        next
          case nf: True
          show ?thesis
          proof (cases "rename_over fs2 ?tmp t")
            case (Inl e)
            with aw en None ws Inr nf have "r = Raised e" "fs' = fs2"
              by (simp_all add: atomic_write_def ATOMIC_WRITE_def)
            with f2 same2 rename_over_error [OF Inl] show ?thesis by auto
          next
            case fs3: (Inr fs3)
            with aw en None ws Inr nf have res: "r = Returned" "fs' = fs3"
              by (simp_all add: atomic_write_def ATOMIC_WRITE_def)
            from frame_resolve [OF f2] have r2: "resolve fs2 p = resolve fs p" for p .
            from rename_over_effect [OF fs3] w(2) nf r2
            have e3: "fs3 = fs2\<lparr>files := ((files fs2)(?T := None))(?K \<mapsto> c)\<rparr>"
              by auto
            then have "frame fs2 fs3 {?K, ?T}" "files fs3 ?K = Some c"
              by (auto simp: frame_def)
            with f2 have "frame fs fs3 {?K, ?T}" "files fs3 ?K = Some c"
              by (auto intro: frame_trans_sub)
            with res nf show ?thesis by simp
          qed
        qed
      qed
    qed
  qed
qed

section \<open>Backups and the guarded write\<close>

lemma path_exists_error: "path_exists fs p = Inl e \<Longrightarrow> e = OSError"
  by (auto simp: path_exists_def split: sum.splits if_splits)

lemma is_dir_error: "is_dir fs p = Inl e \<Longrightarrow> e = OSError"
  by (auto simp: is_dir_def split: sum.splits if_splits)

lemma is_file_error: "is_file fs p = Inl e \<Longrightarrow> e = OSError"
  by (auto simp: is_file_def split: sum.splits if_splits)

lemma with_name_eq:
  "with_name t n = Inr bp \<Longrightarrow> has_name t \<and> bp = butlast t @ [n]"
  by (auto simp: with_name_def split: if_splits)

lemma bak_name: "path_name (butlast t @ [n @ ''.bak.'' @ ts]) \<noteq> ''..''"
  by (auto simp: path_name_def)

lemma make_timestamped_backup_effect:
  assumes mb: "make_timestamped_backup ts fs t = Inr (b, fs1)"
  shows "frame fs fs1 (- {resolve fs t}) \<and> dirs fs1 = dirs fs \<and> backup_of fs1 ts t b"
proof -
  let ?K = "resolve fs t"
  from mb obtain found where ex: "path_exists fs t = Inr found"
    by (auto simp: make_timestamped_backup_def split: sum.splits)
  show ?thesis
  proof (cases "found")
    case False
    with mb ex have "b = None" "fs1 = fs" by (simp_all add: make_timestamped_backup_def)
    then show ?thesis by (simp add: frame_refl backup_of_def)
  next
    case True
    with mb ex obtain bp where wn: "with_name t (path_name t @ ''.bak.'' @ ts) = Inr bp"
      by (auto simp: make_timestamped_backup_def split: sum.splits)
    note bp = with_name_eq [OF wn]
    show ?thesis
    proof (cases "copy_file fs t bp")
      case (Inl e)
      with mb ex True wn have "b = None" "fs1 = fs" by (simp_all add: make_timestamped_backup_def)
      then show ?thesis by (simp add: frame_refl backup_of_def)
    next
      case (Inr fs2)
      with mb ex True wn have res: "b = Some bp" "fs1 = fs2"
        by (simp_all add: make_timestamped_backup_def)
      from copy_file_effect [OF Inr] obtain k c where
        c: "files fs ?K = Some c" "k \<noteq> ?K" "fs2 = fs\<lparr>files := (files fs)(k \<mapsto> c)\<rparr>"
          "k = resolve fs bp \<or> resolve fs bp \<in> dirs fs"
        by auto
      from c(2,3) have fr: "frame fs fs2 (- {?K})" "dirs fs2 = dirs fs" "cwd fs2 = cwd fs"
        by (auto simp: frame_def)
      from fr(3) have rs: "resolve fs2 p = resolve fs p" for p by (rule resolve_cwd)
      from c have "resolve fs bp \<in> dirs fs2 \<or> files fs2 (resolve fs bp) = files fs2 ?K"
        by auto
      with bp rs have "backup_of fs2 ts t (Some bp)" by (simp add: backup_of_def)
      with fr res show ?thesis by simp
    qed
  qed
qed

lemma make_timestamped_backup_error:
  "make_timestamped_backup ts fs t = Inl e \<Longrightarrow> e \<noteq> PermissionError"
  by (auto simp: make_timestamped_backup_def with_name_def dest: path_exists_error
      split: sum.splits if_splits)

lemma backup_of_None [simp]: "backup_of fs ts t None"
  by (simp add: backup_of_def)

text \<open>The backup stays what it is when neither it nor the target is written.\<close>

lemma backup_of_frame:
  assumes "backup_of fs ts t b" "frame fs fs1 A" "resolve fs t \<notin> A"
    "has_name t \<Longrightarrow> resolve fs (butlast t @ [path_name t @ ''.bak.'' @ ts]) \<notin> A"
  shows "backup_of fs1 ts t b"
proof (cases b)
  case None
  then show ?thesis by simp
next
  case (Some bp)
  with assms(1) have h: "has_name t" "bp = butlast t @ [path_name t @ ''.bak.'' @ ts]"
    "resolve fs bp \<in> dirs fs \<or> files fs (resolve fs bp) = files fs (resolve fs t)"
    by (auto simp: backup_of_def)
  from frame_resolve [OF assms(2)] have rs: "resolve fs1 p = resolve fs p" for p .
  from h(3) frame_dirs [OF assms(2)] frame_files [OF assms(2) assms(3)]
    frame_files [OF assms(2) assms(4) [OF h(1)]] h(2)
  have "resolve fs bp \<in> dirs fs1 \<or> files fs1 (resolve fs bp) = files fs1 (resolve fs t)"
    by auto
  with h Some rs show ?thesis by (simp add: backup_of_def)
qed

lemma restore_backup_effect:
  assumes rb: "restore_backup fs t b = (r, fs')" and abs: "is_absolute t"
    and bk: "backup_of fs ts t b"
  shows "frame fs fs' (- {resolve fs t}) \<and> r \<noteq> Returned \<and> r \<noteq> Raised PermissionError"
proof (cases b)
  case None
  with rb show ?thesis by (auto simp: restore_backup_def frame_refl)
next
  case (Some bp)
  let ?K = "resolve fs t"
  from Some bk have h: "has_name t" "bp = butlast t @ [path_name t @ ''.bak.'' @ ts]"
    "resolve fs bp \<in> dirs fs \<or> files fs (resolve fs bp) = files fs ?K"
    by (auto simp: backup_of_def)
  show ?thesis
  proof (cases "path_exists fs bp")
    case (Inl e)
    with rb Some path_exists_error [OF Inl] show ?thesis
      by (auto simp: restore_backup_def frame_refl)
  next
    case (Inr found)
    show ?thesis
    proof (cases "found")
      case False
      with rb Some Inr show ?thesis by (auto simp: restore_backup_def frame_refl)
    next
      case True
      show ?thesis
      proof (cases "copy_file fs bp t")
        case (Inl e)
        with rb Some Inr True copy_file_error [OF Inl] show ?thesis
          by (auto simp: restore_backup_def frame_refl)
      next
        case fs1: (Inr fs1)
        with rb Some Inr True have res: "r = Caught" "fs' = fs1"
          by (simp_all add: restore_backup_def)
        from copy_file_effect [OF fs1] obtain k c where
          c: "files fs (resolve fs bp) = Some c" "resolve fs bp \<notin> dirs fs"
            "fs1 = fs\<lparr>files := (files fs)(k \<mapsto> c)\<rparr>"
            "k = ?K \<or> k = resolve fs (t @ [path_name bp])"
          by auto
        have "path_name bp \<noteq> ''..''" unfolding h(2) by (rule bak_name)
        from child_key_neq [OF abs this, of fs] c(4) have "k = ?K \<or> k \<noteq> ?K" by simp
        moreover from c(1,2) h(3) have "files fs ?K = Some c" by simp
        ultimately have "files fs1 ?K = files fs ?K" using c(3) by auto
        with c(3) have "frame fs fs1 (- {?K})" by (auto simp: frame_def)
        with res show ?thesis by simp
      qed
    qed
  qed
qed

lemma guarded_write_effect:
  assumes gw: "guarded_write restore flt fs t c b = (r, fs')" and abs: "is_absolute t"
    and bk: "backup_of fs ts t b"
  shows "cwd fs' = cwd fs \<and> dirs fs \<subseteq> dirs fs' \<and> r \<noteq> Raised PermissionError \<and>
         (r = Returned \<longrightarrow> files fs' (resolve fs t) = Some c \<and> flt = NoFault) \<and>
         (r \<noteq> Returned \<longrightarrow> files fs' (resolve fs t) = files fs (resolve fs t))"
proof -
  let ?K = "resolve fs t" and ?T = "resolve fs (butlast t @ [path_name t @ ''.tmp''])"
  obtain r1 fs1 where aw: "atomic_write flt fs t c = (r1, fs1)"
    by (cases "atomic_write flt fs t c")
  note e1 = atomic_write_effect [OF aw abs]
  then have f1: "frame fs fs1 {?K, ?T}" by simp
  from frame_resolve [OF f1] have rs: "resolve fs1 p = resolve fs p" for p .
  show ?thesis
  proof (cases "r1 = Returned")
    case True
    let ?fs2 = "case b of Some bp \<Rightarrow> if \<not> KEEP_BACKUPS then unlink_quietly fs1 bp else fs1
                | None \<Rightarrow> fs1"
    from gw aw True have res: "r = Returned" "fs' = ?fs2" by (simp_all add: guarded_write_def)
    have "frame fs1 ?fs2 (- {?K})"
    proof (cases b)
      case None
      then show ?thesis by (simp add: frame_refl)
    next
      case (Some bp)
      with bk have h: "has_name t" "bp = butlast t @ [path_name t @ ''.bak.'' @ ts]"
        by (auto simp: backup_of_def)
      from bak_key_neq [OF h(1) abs, of fs ts] h(2) have "resolve fs bp \<noteq> ?K" by simp
      with unlink_quietly_frame [of fs1 bp] rs Some show ?thesis
        by (auto simp: KEEP_BACKUPS_def intro: frame_mono)
    qed
    then have "files ?fs2 ?K = files fs1 ?K" "cwd ?fs2 = cwd fs1" "dirs fs1 \<subseteq> dirs ?fs2"
      by (simp_all add: frame_def)
    with e1 True res f1 show ?thesis by (auto simp: frame_def)
  next
    case False
    with e1 have same: "files fs1 ?K = files fs ?K" and r1: "r1 \<noteq> Caught" by simp_all
    from gw aw False r1
    have res: "(r, fs') = (if restore then restore_backup fs1 t b else (Caught, fs1))"
      by (cases r1) (simp_all add: guarded_write_def)
    show ?thesis
    proof (cases restore)
      case False
      with res have "r = Caught" "fs' = fs1" by simp_all
      with same f1 show ?thesis by (auto simp: frame_def)
    next
      case True
      with res have rb: "restore_backup fs1 t b = (r, fs')" by simp
      have bk1: "backup_of fs1 ts t b"
      proof (cases "files fs1 ?K = files fs ?K \<and> has_name t")
        case True
        have "files fs1 k = files fs k" if "k \<notin> {?T}" for k
          using that f1 same by (cases "k = ?K") (auto simp: frame_def)
        with f1 have "frame fs fs1 {?T}"
          by (simp add: frame_def)
        then show ?thesis
        proof (rule backup_of_frame [OF bk])
          show "?K \<notin> {?T}" using tmp_key_neq [OF _ abs, of fs] True by auto
          show "resolve fs (butlast t @ [path_name t @ ''.bak.'' @ ts]) \<notin> {?T}"
            using tmp_bak_key_neq [OF _ abs, of fs ts] True by auto
        qed
      next
        case False
        with same bk show ?thesis by (cases b) (simp_all add: backup_of_def)
      qed
      from restore_backup_effect [OF rb abs bk1] rs
      have "frame fs1 fs' (- {?K})" "r \<noteq> Returned" "r \<noteq> Raised PermissionError" by simp_all
      with same f1 show ?thesis by (auto simp: frame_def)
    qed
  qed
qed

end
